theory Spec2Isabelle
  imports Complex_Main "HOL-Library.Word"
begin

section \<open>Strings\<close>

text \<open>
  A JavaScript string is a sequence of 16-bit code units. Every string the calculator
  handles is ASCII except the error marker, the two code units U+932F U+8AA4.
  \<open>lit\<close> turns an ASCII literal into such a sequence.
\<close>

type_synonym code_unit = "16 word"
type_synonym jsstring = "code_unit list"

definition lit :: "string \<Rightarrow> jsstring" where
  "lit cs = map of_char cs"

definition error_marker :: jsstring where
  "error_marker = [0x932F, 0x8AA4]"

definition dot :: code_unit where
  "dot = 0x2E"

definition minus :: code_unit where
  "minus = 0x2D"

definition plus :: code_unit where
  "plus = 0x2B"

definition zero_char :: code_unit where
  "zero_char = 0x30"

definition is_digit :: "code_unit \<Rightarrow> bool" where
  "is_digit c = (0x30 \<le> c \<and> c \<le> 0x39)"

definition digit_val :: "code_unit \<Rightarrow> nat" where
  "digit_val c = unat c - 48"

definition digits_val :: "jsstring \<Rightarrow> nat" where
  "digits_val cs = foldl (\<lambda>a c. 10 * a + digit_val c) 0 cs"

definition digit_char :: "nat \<Rightarrow> code_unit" where
  "digit_char d = of_nat (48 + d mod 10)"

text \<open>The decimal digits of a natural number, most significant first.\<close>

fun decimal :: "nat \<Rightarrow> jsstring" where
  "decimal n = (if n < 10 then [digit_char n] else decimal (n div 10) @ [digit_char (n mod 10)])"

declare decimal.simps [simp del]

text \<open>
  \<open>StrWhiteSpaceChar\<close> of ECMAScript: the white space and line terminator code
  points, all of them in the basic plane.
\<close>

definition is_white_space :: "code_unit \<Rightarrow> bool" where
  "is_white_space c =
     (c = 0x09 \<or> c = 0x0A \<or> c = 0x0B \<or> c = 0x0C \<or> c = 0x0D \<or> c = 0x20 \<or> c = 0xA0
      \<or> c = 0x1680 \<or> (0x2000 \<le> c \<and> c \<le> 0x200A) \<or> c = 0x2028 \<or> c = 0x2029
      \<or> c = 0x202F \<or> c = 0x205F \<or> c = 0x3000 \<or> c = 0xFEFF)"

section \<open>Numbers\<close>

text \<open>
  A JavaScript number is an IEEE 754 binary64 value: not-a-number, an infinity with its
  sign, or a finite value in sign-magnitude form (so that there are two zeros). The sign
  is \<open>True\<close> for negative; the magnitude is the exact rational value. Every operation
  computes the exact result and rounds it to the nearest representable value, ties to even.
\<close>

datatype number = NaN | Infinity bool | Finite bool rat

definition pow2 :: "int \<Rightarrow> rat" where
  "pow2 e = (if 0 \<le> e then 2 ^ nat e else 1 / 2 ^ nat (- e))"

definition pow10 :: "int \<Rightarrow> rat" where
  "pow10 e = (if 0 \<le> e then 10 ^ nat e else 1 / 10 ^ nat (- e))"

fun ndigits :: "nat \<Rightarrow> nat \<Rightarrow> nat" where
  "ndigits b n = (if b < 2 \<or> n < b then 1 else Suc (ndigits b (n div b)))"

declare ndigits.simps [simp del]

text \<open>\<open>floor_log b q\<close> is the integer \<open>e\<close> with \<open>b ^ e \<le> q < b ^ (e + 1)\<close>, for \<open>q > 0\<close>.\<close>

definition floor_log :: "nat \<Rightarrow> rat \<Rightarrow> int" where
  "floor_log b q =
     (if 1 \<le> q then int (ndigits b (nat \<lfloor>q\<rfloor>)) - 1
      else - int (ndigits b (nat (\<lceil>1 / q\<rceil> - 1))))"

definition round_half_even :: "rat \<Rightarrow> int" where
  "round_half_even x =
     (let f = \<lfloor>x\<rfloor>; r = x - of_int f
      in if r < 1 / 2 then f else if 1 / 2 < r then f + 1 else if even f then f else f + 1)"

text \<open>
  Rounding a magnitude to binary64: 53 significant bits, least exponent \<open>-1074\<close>
  (subnormals), overflow to infinity from \<open>2 ^ 1024\<close>.
\<close>

definition round_double :: "bool \<Rightarrow> rat \<Rightarrow> number" where
  "round_double sg q =
     (if q = 0 then Finite sg 0
      else let e = max (floor_log 2 q - 52) (- 1074);
               m = round_half_even (q / pow2 e);
               v = of_int m * pow2 e
           in if pow2 1024 \<le> v then Infinity sg else Finite sg v)"

definition signed :: "bool \<Rightarrow> rat \<Rightarrow> rat" where
  "signed sg q = (if sg then - q else q)"

fun num_neg :: "number \<Rightarrow> number" where
  "num_neg NaN = NaN"
| "num_neg (Infinity s) = Infinity (\<not> s)"
| "num_neg (Finite s a) = Finite (\<not> s) a"

fun num_add :: "number \<Rightarrow> number \<Rightarrow> number" where
  "num_add NaN y = NaN"
| "num_add x NaN = NaN"
| "num_add (Infinity s) (Infinity t) = (if s = t then Infinity s else NaN)"
| "num_add (Infinity s) (Finite t b) = Infinity s"
| "num_add (Finite s a) (Infinity t) = Infinity t"
| "num_add (Finite s a) (Finite t b) =
     (let r = signed s a + signed t b
      in if r = 0 then Finite (s \<and> t) 0 else round_double (r < 0) \<bar>r\<bar>)"

definition num_sub :: "number \<Rightarrow> number \<Rightarrow> number" where
  "num_sub x y = num_add x (num_neg y)"

fun num_mul :: "number \<Rightarrow> number \<Rightarrow> number" where
  "num_mul NaN y = NaN"
| "num_mul x NaN = NaN"
| "num_mul (Infinity s) (Infinity t) = Infinity (s \<noteq> t)"
| "num_mul (Infinity s) (Finite t b) = (if b = 0 then NaN else Infinity (s \<noteq> t))"
| "num_mul (Finite s a) (Infinity t) = (if a = 0 then NaN else Infinity (s \<noteq> t))"
| "num_mul (Finite s a) (Finite t b) = round_double (s \<noteq> t) (a * b)"

fun num_div :: "number \<Rightarrow> number \<Rightarrow> number" where
  "num_div NaN y = NaN"
| "num_div x NaN = NaN"
| "num_div (Infinity s) (Infinity t) = NaN"
| "num_div (Infinity s) (Finite t b) = Infinity (s \<noteq> t)"
| "num_div (Finite s a) (Infinity t) = Finite (s \<noteq> t) 0"
| "num_div (Finite s a) (Finite t b) =
     (if b = 0 then (if a = 0 then NaN else Infinity (s \<noteq> t))
      else round_double (s \<noteq> t) (a / b))"

text \<open>\<open>x === y\<close> on numbers: not-a-number equals nothing, the two zeros are equal.\<close>

fun strict_eq :: "number \<Rightarrow> number \<Rightarrow> bool" where
  "strict_eq (Finite s a) (Finite t b) = (a = b \<and> (s = t \<or> a = 0))"
| "strict_eq (Infinity s) (Infinity t) = (s = t)"
| "strict_eq x y = False"

text \<open>\<open>x >= y\<close> on numbers: false as soon as one side is not-a-number.\<close>

fun num_ge :: "number \<Rightarrow> number \<Rightarrow> bool" where
  "num_ge NaN y = False"
| "num_ge x NaN = False"
| "num_ge (Infinity s) (Infinity t) = (\<not> s \<or> t)"
| "num_ge (Infinity s) (Finite t b) = (\<not> s)"
| "num_ge (Finite s a) (Infinity t) = t"
| "num_ge (Finite s a) (Finite t b) = (signed t b \<le> signed s a)"

fun Math_abs :: "number \<Rightarrow> number" where
  "Math_abs NaN = NaN"
| "Math_abs (Infinity s) = Infinity False"
| "Math_abs (Finite s a) = Finite False a"

definition isNaN :: "number \<Rightarrow> bool" where
  "isNaN x = (x = NaN)"

fun is_finite :: "number \<Rightarrow> bool" where
  "is_finite (Finite s a) = True"
| "is_finite x = False"

text \<open>The numeric literals of the source: \<open>0\<close>, \<open>100\<close> and \<open>1e15\<close>.\<close>

definition num_0 :: number where
  "num_0 = Finite False 0"

definition num_100 :: number where
  "num_100 = Finite False 100"

definition num_1e15 :: number where
  "num_1e15 = Finite False (10 ^ 15)"

section \<open>Reading and printing numbers\<close>

text \<open>
  \<open>parseFloat\<close>: drop leading white space, then read the longest prefix that is a
  \<open>StrDecimalLiteral\<close> (an optional sign, then \<open>Infinity\<close> or decimal digits with an
  optional fraction and an optional exponent); not-a-number when there is none. The
  value is the mathematical value of the prefix, rounded. (Beyond twenty significant
  digits ECMAScript also allows the digits after the twentieth to be read as zeros; the
  model rounds the exact value.)
\<close>

definition exponent_digits :: "jsstring \<Rightarrow> int" where
  "exponent_digits r = int (digits_val (takeWhile is_digit r))"

definition exponent_part :: "jsstring \<Rightarrow> int" where
  "exponent_part r =
     (case r of
        [] \<Rightarrow> 0
      | c # r' \<Rightarrow>
          if c = 0x65 \<or> c = 0x45 then
            (case r' of
               [] \<Rightarrow> 0
             | d # r'' \<Rightarrow>
                 if d = minus then - exponent_digits r''
                 else if d = plus then exponent_digits r''
                 else exponent_digits r')
          else 0)"

definition unsigned_literal :: "bool \<Rightarrow> jsstring \<Rightarrow> number" where
  "unsigned_literal sg u =
     (if take 8 u = lit ''Infinity'' then Infinity sg
      else let ip = takeWhile is_digit u;
               r1 = dropWhile is_digit u;
               fp = (case r1 of [] \<Rightarrow> [] | c # r \<Rightarrow> if c = dot then takeWhile is_digit r else []);
               r2 = (case r1 of [] \<Rightarrow> [] | c # r \<Rightarrow> if c = dot then dropWhile is_digit r else r1)
           in if ip = [] \<and> fp = [] then NaN
              else round_double sg
                     (of_nat (digits_val (ip @ fp)) * pow10 (exponent_part r2 - int (length fp))))"

definition parseFloat :: "jsstring \<Rightarrow> number" where
  "parseFloat input =
     (case dropWhile is_white_space input of
        [] \<Rightarrow> NaN
      | c # r \<Rightarrow>
          if c = minus then unsigned_literal True r
          else if c = plus then unsigned_literal False r
          else unsigned_literal False (c # r))"

text \<open>
  \<open>Number::toString\<close>: the digits are those of the least \<open>k\<close> for which some integer
  \<open>s\<close> of \<open>k\<close> digits and some \<open>n\<close> have \<open>s * 10 ^ (n - k)\<close> round to the number; among
  several \<open>s\<close> the closest to the number, the even one at a tie. For a given \<open>k\<close>
  the two candidates are the multiples of \<open>10 ^ (n - k)\<close> around the number.
  Seventeen digits always suffice.
\<close>

definition candidate_value :: "nat \<Rightarrow> nat \<times> int \<Rightarrow> rat" where
  "candidate_value k c = of_nat (fst c) * pow10 (snd c - int k)"

definition round_trips :: "rat \<Rightarrow> nat \<Rightarrow> nat \<times> int \<Rightarrow> bool" where
  "round_trips q k c = (round_double False (candidate_value k c) = Finite False q)"

definition closest :: "rat \<Rightarrow> nat \<Rightarrow> nat \<times> int \<Rightarrow> nat \<times> int \<Rightarrow> nat \<times> int" where
  "closest q k lo hi =
     (let dl = \<bar>q - candidate_value k lo\<bar>; dh = \<bar>candidate_value k hi - q\<bar>
      in if dl < dh then lo else if dh < dl then hi else if even (fst lo) then lo else hi)"

definition lower_candidate :: "rat \<Rightarrow> int \<Rightarrow> nat \<Rightarrow> nat \<times> int" where
  "lower_candidate q n0 k = (nat \<lfloor>q / pow10 (n0 - int k)\<rfloor>, n0)"

definition upper_candidate :: "rat \<Rightarrow> int \<Rightarrow> nat \<Rightarrow> nat \<times> int" where
  "upper_candidate q n0 k =
     (let l = nat \<lfloor>q / pow10 (n0 - int k)\<rfloor>
      in if l + 1 = 10 ^ k then (10 ^ (k - 1), n0 + 1) else (l + 1, n0))"

function shortest_digits :: "rat \<Rightarrow> int \<Rightarrow> nat \<Rightarrow> nat \<times> int" where
  "shortest_digits q n0 k =
     (if 17 \<le> k then closest q k (lower_candidate q n0 k) (upper_candidate q n0 k)
      else if round_trips q k (lower_candidate q n0 k) \<and> round_trips q k (upper_candidate q n0 k)
        then closest q k (lower_candidate q n0 k) (upper_candidate q n0 k)
      else if round_trips q k (lower_candidate q n0 k) then lower_candidate q n0 k
      else if round_trips q k (upper_candidate q n0 k) then upper_candidate q n0 k
      else shortest_digits q n0 (Suc k))"
  by pat_completeness auto
termination
  by (relation "measure (\<lambda>(q, n0, k). 17 - k)") auto

declare shortest_digits.simps [simp del]

definition exponent_text :: "int \<Rightarrow> jsstring" where
  "exponent_text e = (if e < 0 then [minus] else [plus]) @ decimal (nat \<bar>e\<bar>)"

definition format_digits :: "nat \<times> int \<Rightarrow> jsstring" where
  "format_digits c =
     (let ds = decimal (fst c);
          k = int (length ds);
          n = snd c
      in if k \<le> n \<and> n \<le> 21 then ds @ replicate (nat (n - k)) zero_char
         else if 0 < n \<and> n \<le> 21 then take (nat n) ds @ [dot] @ drop (nat n) ds
         else if - 6 < n \<and> n \<le> 0 then lit ''0.'' @ replicate (nat (- n)) zero_char @ ds
         else if k = 1 then ds @ lit ''e'' @ exponent_text (n - 1)
         else take 1 ds @ [dot] @ drop 1 ds @ lit ''e'' @ exponent_text (n - 1))"

definition positive_toString :: "rat \<Rightarrow> jsstring" where
  "positive_toString q = format_digits (shortest_digits q (floor_log 10 q + 1) 1)"

text \<open>\<open>String(x)\<close> and \<open>x.toString()\<close> of a number \<open>x\<close>.\<close>

fun toString :: "number \<Rightarrow> jsstring" where
  "toString NaN = lit ''NaN''"
| "toString (Infinity s) = (if s then lit ''-Infinity'' else lit ''Infinity'')"
| "toString (Finite s q) =
     (if q = 0 then lit ''0''
      else if s then minus # positive_toString q
      else positive_toString q)"

text \<open>
  \<open>x.toExponential(f)\<close> for \<open>0 \<le> f \<le> 100\<close>: an infinity or not-a-number prints as
  \<open>toString\<close> does; otherwise \<open>n\<close> is the integer of \<open>f + 1\<close> digits with
  \<open>n * 10 ^ (e - f)\<close> closest to the number, the larger one at a tie.
\<close>

definition exponential_digits :: "nat \<Rightarrow> rat \<Rightarrow> nat \<times> int" where
  "exponential_digits f q =
     (if q = 0 then (0, 0)
      else let e = floor_log 10 q;
               n = nat \<lfloor>q / pow10 (e - int f) + 1 / 2\<rfloor>
           in if n = 10 ^ (f + 1) then (10 ^ f, e + 1) else (n, e))"

definition mantissa_text :: "nat \<Rightarrow> nat \<Rightarrow> jsstring" where
  "mantissa_text f n =
     (let m = (if n = 0 then replicate (f + 1) zero_char else decimal n)
      in if f \<noteq> 0 then take 1 m @ [dot] @ drop 1 m else m)"

fun toExponential :: "nat \<Rightarrow> number \<Rightarrow> jsstring" where
  "toExponential f (Finite s q) =
     (let c = exponential_digits f q
      in (if s \<and> q \<noteq> 0 then [minus] else []) @ mantissa_text f (fst c) @ lit ''e''
           @ exponent_text (snd c))"
| "toExponential f x = toString x"

section \<open>The calculator\<close>

text \<open>
  The component's four state variables. \<open>Operation\<close> of the source is one of the four
  operator labels or \<open>null\<close>; \<open>previousValue\<close> is a number or \<open>null\<close>. A handler
  reads the state of the render it belongs to and queues its updates; the next press sees
  them all. So each handler is a function from the state to the next state. The haptic
  feedback is left out.
\<close>

datatype operator = Add | Subtract | Multiply | Divide

type_synonym Operation = "operator option"

record state =
  display :: jsstring
  previousValue :: "number option"
  operation :: Operation
  waitingForNewValue :: bool

definition initial :: state where
  "initial = \<lparr>display = lit ''0'', previousValue = None, operation = None,
              waitingForNewValue = False\<rparr>"

definition handleNumberPress :: "state \<Rightarrow> jsstring \<Rightarrow> state" where
  "handleNumberPress s num =
     (if waitingForNewValue s then s\<lparr>display := num, waitingForNewValue := False\<rparr>
      else s\<lparr>display := (if display s = lit ''0'' then num else display s @ num)\<rparr>)"

definition handleDecimalPress :: "state \<Rightarrow> state" where
  "handleDecimalPress s =
     (if waitingForNewValue s then s\<lparr>display := lit ''0.'', waitingForNewValue := False\<rparr>
      else if dot \<notin> set (display s) then s\<lparr>display := display s @ [dot]\<rparr>
      else s)"

fun calculate :: "number \<Rightarrow> number \<Rightarrow> Operation \<Rightarrow> number" where
  "calculate first second (Some Add) = num_add first second"
| "calculate first second (Some Subtract) = num_sub first second"
| "calculate first second (Some Multiply) = num_mul first second"
| "calculate first second (Some Divide) =
     (if strict_eq second num_0 then NaN else num_div first second)"
| "calculate first second None = second"

definition handleOperationPress :: "state \<Rightarrow> Operation \<Rightarrow> state" where
  "handleOperationPress s op =
     (let currentValue = parseFloat (display s)
      in case previousValue s of
           None \<Rightarrow>
             s\<lparr>previousValue := Some currentValue, waitingForNewValue := True, operation := op\<rparr>
         | Some prev \<Rightarrow>
             if operation s \<noteq> None then
               (let result = calculate prev currentValue (operation s)
                in s\<lparr>display := toString result, previousValue := Some result,
                     waitingForNewValue := True, operation := op\<rparr>)
             else s\<lparr>waitingForNewValue := True, operation := op\<rparr>)"

definition handleEquals :: "state \<Rightarrow> state" where
  "handleEquals s =
     (case previousValue s of
        None \<Rightarrow> s
      | Some prev \<Rightarrow>
          if operation s \<noteq> None then
            (let currentValue = parseFloat (display s);
                 result = calculate prev currentValue (operation s)
             in if isNaN result then
                  s\<lparr>display := error_marker, previousValue := None, operation := None,
                    waitingForNewValue := True\<rparr>
                else
                  s\<lparr>display := toString result, previousValue := None, operation := None,
                    waitingForNewValue := True\<rparr>)
          else s)"

definition handleClear :: "state \<Rightarrow> state" where
  "handleClear s =
     s\<lparr>display := lit ''0'', previousValue := None, operation := None,
       waitingForNewValue := False\<rparr>"

definition handleToggleSign :: "state \<Rightarrow> state" where
  "handleToggleSign s =
     (if display s \<noteq> lit ''0'' then
        s\<lparr>display := (case display s of
                        c # r \<Rightarrow> if c = minus then r else minus # display s
                      | [] \<Rightarrow> minus # display s)\<rparr>
      else s)"

definition handlePercentage :: "state \<Rightarrow> state" where
  "handlePercentage s =
     (let v = num_div (parseFloat (display s)) num_100 in s\<lparr>display := toString v\<rparr>)"

definition formatDisplay :: "jsstring \<Rightarrow> jsstring" where
  "formatDisplay v =
     (if v = error_marker then v
      else let num = parseFloat v
           in if isNaN num then lit ''0''
              else if num_ge (Math_abs num) num_1e15 then toExponential 6 num
              else toString num)"

text \<open>
  The keypad: ten digit buttons, the decimal point, four operators, equals, clear (AC),
  sign toggle and percent, each wired to one handler.
\<close>

datatype digit = D0 | D1 | D2 | D3 | D4 | D5 | D6 | D7 | D8 | D9

fun digit_label :: "digit \<Rightarrow> jsstring" where
  "digit_label D0 = lit ''0''"
| "digit_label D1 = lit ''1''"
| "digit_label D2 = lit ''2''"
| "digit_label D3 = lit ''3''"
| "digit_label D4 = lit ''4''"
| "digit_label D5 = lit ''5''"
| "digit_label D6 = lit ''6''"
| "digit_label D7 = lit ''7''"
| "digit_label D8 = lit ''8''"
| "digit_label D9 = lit ''9''"

datatype event = Digit digit | Decimal | Operator operator | Equals | Clear | ToggleSign | Percent

fun press :: "state \<Rightarrow> event \<Rightarrow> state" where
  "press s (Digit d) = handleNumberPress s (digit_label d)"
| "press s Decimal = handleDecimalPress s"
| "press s (Operator op) = handleOperationPress s (Some op)"
| "press s Equals = handleEquals s"
| "press s Clear = handleClear s"
| "press s ToggleSign = handleToggleSign s"
| "press s Percent = handlePercentage s"

definition run :: "state \<Rightarrow> event list \<Rightarrow> state" where
  "run s es = foldl press s es"

section \<open>The specification's wording\<close>

text \<open>
  \<open>apply\<close> of the specification: the four operations on two numbers, division by
  zero giving not-a-number.
\<close>

fun spec_apply :: "number \<Rightarrow> number \<Rightarrow> operator \<Rightarrow> number" where
  "spec_apply a b Add = num_add a b"
| "spec_apply a b Subtract = num_sub a b"
| "spec_apply a b Multiply = num_mul a b"
| "spec_apply a b Divide = (if strict_eq b num_0 then NaN else num_div a b)"

text \<open>
  The specification's Operator event: with \<open>current\<close> the parsed display, an absent
  previous value becomes \<open>current\<close>; otherwise a pending operation is resolved into the
  display and the previous value; in all cases the flag is set and the operator recorded.
\<close>

definition spec_operator :: "state \<Rightarrow> operator \<Rightarrow> state" where
  "spec_operator s op =
     (let current = parseFloat (display s);
          s' = (case previousValue s of
                  None \<Rightarrow> s\<lparr>previousValue := Some current\<rparr>
                | Some prev \<Rightarrow>
                    (case operation s of
                       None \<Rightarrow> s
                     | Some pending \<Rightarrow>
                         s\<lparr>display := toString (spec_apply prev current pending),
                           previousValue := Some (spec_apply prev current pending)\<rparr>))
      in s'\<lparr>waitingForNewValue := True, operation := Some op\<rparr>)"

text \<open>Pressing operators one after the other, with nothing in between.\<close>

definition press_operators :: "state \<Rightarrow> operator list \<Rightarrow> state" where
  "press_operators s ops = run s (map Operator ops)"

text \<open>
  The text typed by a sequence of digit presses, and the number it shows when typed over
  a display of \<open>0\<close>: leading zeros are replaced, a lone zero stays.
\<close>

definition typed :: "digit list \<Rightarrow> jsstring" where
  "typed ds = concat (map digit_label ds)"

definition typed_over_zero :: "digit list \<Rightarrow> jsstring" where
  "typed_over_zero ds =
     (case dropWhile (\<lambda>d. d = D0) ds of [] \<Rightarrow> lit ''0'' | d # r \<Rightarrow> typed (d # r))"

text \<open>The number of decimal points of a string.\<close>

definition dot_count :: "jsstring \<Rightarrow> nat" where
  "dot_count cs = length (filter (\<lambda>c. c = dot) cs)"

text \<open>
  Scientific notation with six fractional digits: an optional minus sign, one digit, the
  decimal point, six digits, \<open>e\<close>, a sign and at least one digit of exponent.
\<close>

definition unsigned_scientific6 :: "jsstring \<Rightarrow> bool" where
  "unsigned_scientific6 cs =
     (9 < length cs \<and> is_digit (cs ! 0) \<and> cs ! 1 = dot \<and> list_all is_digit (take 6 (drop 2 cs))
      \<and> cs ! 8 = 0x65 \<and> (cs ! 9 = plus \<or> cs ! 9 = minus)
      \<and> drop 10 cs \<noteq> [] \<and> list_all is_digit (drop 10 cs))"

definition scientific6 :: "jsstring \<Rightarrow> bool" where
  "scientific6 cs =
     (case cs of [] \<Rightarrow> False | c # r \<Rightarrow> if c = minus then unsigned_scientific6 r
                                       else unsigned_scientific6 cs)"

text \<open>
  Whether a state that shows the error marker, possibly behind minus signs, waits for a
  new value.
\<close>

definition marker_waits :: "state \<Rightarrow> bool" where
  "marker_waits s =
     (if dropWhile (\<lambda>c. c = minus) (display s) = error_marker
      then waitingForNewValue s else True)"

text \<open>
  A number is well formed when its magnitude is not negative, as every number that is
  read or computed is.
\<close>

fun wf_number :: "number \<Rightarrow> bool" where
  "wf_number (Finite s q) = (0 \<le> q)"
| "wf_number x = True"

text \<open>
  A display on which the sign toggle is its own inverse: not empty, not a lone minus
  sign, not \<open>-0\<close>, and not starting with two minus signs.
\<close>

definition plain_sign :: "jsstring \<Rightarrow> bool" where
  "plain_sign cs = (cs \<noteq> [] \<and> cs \<noteq> [minus] \<and> cs \<noteq> lit ''-0'' \<and> take 2 cs \<noteq> [minus, minus])"

definition well_formed :: "state \<Rightarrow> bool" where
  "well_formed s =
     (plain_sign (display s)
      \<and> (case previousValue s of None \<Rightarrow> True | Some prev \<Rightarrow> wf_number prev))"

text \<open>
  The text of a number: an optional minus sign, then a digit or \<open>Infinity\<close>.
\<close>

definition unsigned_number :: "jsstring \<Rightarrow> bool" where
  "unsigned_number r = ((case r of [] \<Rightarrow> False | c # r' \<Rightarrow> is_digit c) \<or> take 8 r = lit ''Infinity'')"

definition numeric_text :: "jsstring \<Rightarrow> bool" where
  "numeric_text cs =
     (case cs of [] \<Rightarrow> False | c # r \<Rightarrow> if c = minus then unsigned_number r else unsigned_number cs)"

text \<open>
  A state shows a number when its display is the text of a number, or is the error marker
  while the calculator waits for a new value.
\<close>

definition shows_number :: "state \<Rightarrow> bool" where
  "shows_number s =
     (numeric_text (display s) \<or> (display s = error_marker \<and> waitingForNewValue s))"

text \<open>
  The presses that print a not-a-number result or work on a display that does not parse to
  a number: an operator press that resolves the pending operation to not-a-number, and
  a percent or sign toggle press on such a display. A run is regular when it has none.
\<close>

fun irregular :: "state \<Rightarrow> event \<Rightarrow> bool" where
  "irregular s (Operator op) =
     (case previousValue s of
        None \<Rightarrow> False
      | Some prev \<Rightarrow>
          operation s \<noteq> None \<and> isNaN (calculate prev (parseFloat (display s)) (operation s)))"
| "irregular s Percent = isNaN (parseFloat (display s))"
| "irregular s ToggleSign = isNaN (parseFloat (display s))"
| "irregular s e = False"

fun regular_run :: "state \<Rightarrow> event list \<Rightarrow> bool" where
  "regular_run s [] = True"
| "regular_run s (e # es) = (\<not> irregular s e \<and> regular_run (press s e) es)"

section \<open>Running the keypad\<close>

lemma run_Nil [simp]: "run s [] = s"
  by (simp add: run_def)

lemma run_Cons [simp]: "run s (e # es) = run (press s e) es"
  by (simp add: run_def)

lemma run_append: "run s (es @ fs) = run (run s es) fs"
  by (simp add: run_def)

lemma digit_label_single: "\<exists>c. digit_label d = [c] \<and> is_digit c"
  by (cases d) (simp_all add: lit_def is_digit_def)

lemma digit_label_eq_zero: "digit_label d = lit ''0'' \<longleftrightarrow> d = D0"
  by (cases d) (simp_all add: lit_def)

lemma typed_Cons: "typed (d # ds) = digit_label d @ typed ds"
  by (simp add: typed_def)

lemma digits_append:
  "\<not> waitingForNewValue s \<Longrightarrow> display s \<noteq> lit ''0'' \<Longrightarrow> display s \<noteq> [] \<Longrightarrow>
   run s (map Digit ds) = s\<lparr>display := display s @ typed ds\<rparr>"
proof (induction ds arbitrary: s)
  case Nil
  then show ?case by (simp add: typed_def)
next
  case (Cons d ds)
  define s' where "s' = handleNumberPress s (digit_label d)"
  obtain c where c: "digit_label d = [c]" using digit_label_single by blast
  have step: "s' = s\<lparr>display := display s @ digit_label d\<rparr>"
    using Cons.prems by (simp add: s'_def handleNumberPress_def)
  have w: "\<not> waitingForNewValue s'"
    using Cons.prems by (simp add: step)
  have nz: "display s' \<noteq> lit ''0''"
    using Cons.prems c by (cases "display s") (simp_all add: step lit_def)
  have ne: "display s' \<noteq> []"
    by (simp add: step c)
  have "run s' (map Digit ds) = s'\<lparr>display := display s' @ typed ds\<rparr>"
    using w nz ne by (rule Cons.IH)
  then show ?case by (simp add: s'_def [symmetric]) (simp add: step typed_Cons)
qed

lemma digits_over_zero:
  "\<not> waitingForNewValue s \<Longrightarrow> display s = lit ''0'' \<or> display s = [] \<Longrightarrow> ds \<noteq> [] \<Longrightarrow>
   run s (map Digit ds) = s\<lparr>display := typed_over_zero ds\<rparr>"
proof (induction ds arbitrary: s)
  case Nil
  then show ?case by simp
next
  case (Cons d ds)
  define s' where "s' = handleNumberPress s (digit_label d)"
  have step: "s' = s\<lparr>display := digit_label d\<rparr>"
    using Cons.prems by (auto simp add: s'_def handleNumberPress_def)
  have w: "\<not> waitingForNewValue s'"
    using Cons.prems by (simp add: step)
  have run: "run s (map Digit (d # ds)) = run s' (map Digit ds)"
    by (simp add: s'_def)
  show ?case
  proof (cases "d = D0")
    case True
    then have z: "display s' = lit ''0'' \<or> display s' = []"
      by (simp add: step)
    show ?thesis
    proof (cases "ds = []")
      case True
      with \<open>d = D0\<close> show ?thesis
        unfolding run by (simp add: step typed_over_zero_def)
    next
      case False
      have "run s' (map Digit ds) = s'\<lparr>display := typed_over_zero ds\<rparr>"
        using w z False by (rule Cons.IH)
      with \<open>d = D0\<close> show ?thesis
        unfolding run by (simp add: step typed_over_zero_def)
    qed
  next
    case False
    have nz: "display s' \<noteq> lit ''0''"
      using False by (simp add: step digit_label_eq_zero)
    have ne: "display s' \<noteq> []"
      using digit_label_single[of d] by (auto simp add: step)
    have "run s' (map Digit ds) = s'\<lparr>display := display s' @ typed ds\<rparr>"
      using w nz ne by (rule digits_append)
    with False show ?thesis
      unfolding run by (simp add: step typed_over_zero_def typed_Cons)
  qed
qed

section \<open>Digit presses\<close>

text \<open>
  Claim C5. A digit press replaces the display by the digit and clears the flag when the
  calculator waits for a new value; otherwise it replaces a display of \<open>0\<close> by the digit
  and appends the digit to any other display. Hence a sequence of digit presses from a
  state that does not wait for a new value shows the digits typed after the display it
  started from, where a display of \<open>0\<close> (or an empty one) is replaced: leading zeros
  typed over it are dropped, and a lone zero stays. No other field changes. The display
  the sequence starts from may contain a decimal point or not.
\<close>

theorem digit_press:
  "handleNumberPress s num =
     (if waitingForNewValue s then s\<lparr>display := num, waitingForNewValue := False\<rparr>
      else if display s = lit ''0'' then s\<lparr>display := num\<rparr>
      else s\<lparr>display := display s @ num\<rparr>)
   \<and> (\<not> waitingForNewValue s \<longrightarrow>
        run s (map Digit ds) =
          s\<lparr>display := (if ds = [] then display s
                         else if display s = lit ''0'' \<or> display s = [] then typed_over_zero ds
                         else display s @ typed ds)\<rparr>)"
proof (intro conjI impI)
  show "handleNumberPress s num =
     (if waitingForNewValue s then s\<lparr>display := num, waitingForNewValue := False\<rparr>
      else if display s = lit ''0'' then s\<lparr>display := num\<rparr>
      else s\<lparr>display := display s @ num\<rparr>)"
    by (simp add: handleNumberPress_def)
next
  assume w: "\<not> waitingForNewValue s"
  consider "ds = []" | "ds \<noteq> []" "display s = lit ''0'' \<or> display s = []"
    | "ds \<noteq> []" "display s \<noteq> lit ''0''" "display s \<noteq> []"
    by blast
  then show "run s (map Digit ds) =
          s\<lparr>display := (if ds = [] then display s
                         else if display s = lit ''0'' \<or> display s = [] then typed_over_zero ds
                         else display s @ typed ds)\<rparr>"
  proof cases
    case 1
    then show ?thesis by simp
  next
    case 2
    then show ?thesis using digits_over_zero[OF w] by simp
  next
    case 3
    then show ?thesis using digits_append[OF w] by simp
  qed
qed

theorem digit_press_witness:
  "\<not> waitingForNewValue initial
   \<and> display (run initial (map Digit [D0, D4, D0, D2])) = lit ''402''"
  using digit_press [of initial "[]" "[D0, D4, D0, D2]"]
  by (simp add: initial_def typed_over_zero_def typed_def lit_def)

section \<open>Evaluating the number functions on concrete inputs\<close>

lemmas string_eval = lit_def error_marker_def dot_def minus_def plus_def zero_char_def
  is_digit_def is_white_space_def digit_val_def digits_val_def digit_char_def

lemma floor_numeral_divide: "\<lfloor>numeral a / numeral b :: rat\<rfloor> = numeral a div numeral b"
  by (metis floor_divide_of_int_eq of_int_numeral)

lemma ceiling_numeral_divide:
  "\<lceil>numeral a / numeral b :: rat\<rceil> = - (- numeral a div numeral b)"
  by (metis ceiling_def floor_divide_of_int_eq of_int_minus of_int_numeral minus_divide_left)

lemmas round_eval = round_double_def floor_log_def ndigits.simps round_half_even_def
  pow2_def pow10_def Let_def floor_numeral_divide ceiling_numeral_divide

lemmas parse_eval = parseFloat_def unsigned_literal_def exponent_part_def exponent_digits_def

lemmas print_eval = positive_toString_def format_digits_def shortest_digits.simps lower_candidate_def
  upper_candidate_def candidate_value_def round_trips_def closest_def decimal.simps
  exponent_text_def

lemma parseFloat_digit:
  "parseFloat (digit_label d) =
     Finite False (case d of D0 \<Rightarrow> 0 | D1 \<Rightarrow> 1 | D2 \<Rightarrow> 2 | D3 \<Rightarrow> 3 | D4 \<Rightarrow> 4
                   | D5 \<Rightarrow> 5 | D6 \<Rightarrow> 6 | D7 \<Rightarrow> 7 | D8 \<Rightarrow> 8 | D9 \<Rightarrow> 9)"
  by (cases d) (simp_all add: parse_eval string_eval round_eval)

lemma parseFloat_zero: "parseFloat (lit ''0'') = Finite False 0"
  by (simp add: parse_eval string_eval round_eval)

lemma parseFloat_zero_dot: "parseFloat (lit ''0.'') = Finite False 0"
  by (simp add: parse_eval string_eval round_eval)

lemma parseFloat_NaN: "parseFloat (lit ''NaN'') = NaN"
  by (simp add: parse_eval string_eval)

lemma parseFloat_error_marker: "parseFloat error_marker = NaN"
  by (simp add: parse_eval string_eval)

lemma parseFloat_minus_error_marker: "parseFloat (minus # error_marker) = NaN"
  by (simp add: parse_eval string_eval)

lemma parseFloat_Infinity: "parseFloat (lit ''Infinity'') = Infinity False"
  by (simp add: parse_eval string_eval)

lemma add_5_3: "num_add (Finite False 5) (Finite False 3) = Finite False 8"
  by (simp add: signed_def round_eval)

lemma toString_8: "toString (Finite False 8) = lit ''8''"
  by (simp add: print_eval string_eval round_eval)

lemma add_2_2: "num_add (Finite False 2) (Finite False 2) = Finite False 4"
  by (simp add: signed_def round_eval)

lemma toString_4: "toString (Finite False 4) = lit ''4''"
  by (simp add: print_eval string_eval round_eval)

lemma calculate_spec_apply: "calculate a b (Some op) = spec_apply a b op"
  by (cases op) simp_all

text \<open>
  The rounding at work: 120 percent is the binary64 number nearest to \<open>1.2\<close>, whose
  shortest text is \<open>1.2\<close>.
\<close>

lemma parseFloat_120: "parseFloat (lit ''120'') = Finite False 120"
  by (simp add: parse_eval string_eval round_eval)

lemma div_120_100:
  "num_div (Finite False 120) num_100 = Finite False (5404319552844595 / 4503599627370496)"
  by (simp add: num_100_def round_eval)

lemma toString_1_2:
  "toString (Finite False (5404319552844595 / 4503599627370496)) = lit ''1.2''"
  by (simp add: print_eval round_eval string_eval)

section \<open>Equals\<close>

text \<open>
  Claim C2. With a previous value present, a pending division and a display that parses
  to zero (of either sign), Equals shows the error marker, clears the previous value and
  the pending operation and sets the flag; and dividing any number by zero with
  \<open>calculate\<close> gives not-a-number.
\<close>

theorem equals_division_by_zero:
  "(previousValue s = Some a \<and> operation s = Some Divide
      \<and> strict_eq (parseFloat (display s)) num_0 \<longrightarrow>
    handleEquals s =
      s\<lparr>display := error_marker, previousValue := None, operation := None,
        waitingForNewValue := True\<rparr>)
   \<and> (strict_eq z num_0 \<longrightarrow> calculate b z (Some Divide) = NaN)"
  by (simp add: handleEquals_def isNaN_def)

theorem equals_division_by_zero_witness:
  "strict_eq (parseFloat (lit ''0'')) num_0
   \<and> handleEquals \<lparr>display = lit ''0'', previousValue = Some (Finite False 9),
         operation = Some Divide, waitingForNewValue = False\<rparr> =
       \<lparr>display = error_marker, previousValue = None, operation = None,
         waitingForNewValue = True\<rparr>
   \<and> calculate (Finite False 9) (Finite True 0) (Some Divide) = NaN"
  using equals_division_by_zero
    [of "\<lparr>display = lit ''0'', previousValue = Some (Finite False 9),
           operation = Some Divide, waitingForNewValue = False\<rparr>"
        "Finite False 9" "Finite True 0" "Finite False 9"]
  by (simp add: parseFloat_zero num_0_def)

lemma run_5_plus_3:
  "display (run initial [Digit D5, Operator Add, Digit D3, Equals]) = lit ''8''"
  by (simp add: initial_def handleNumberPress_def handleOperationPress_def handleEquals_def
      parseFloat_zero parseFloat_digit[of D5, simplified] parseFloat_digit[of D3, simplified]
      add_5_3 toString_8 isNaN_def del: num_add.simps toString.simps)

text \<open>
  Claim C6. With a previous value and a pending operation present and a result that is a
  number, Equals shows the text of the result, clears the previous value and the pending
  operation and sets the flag; with either absent it changes nothing. Pressing 5, plus,
  3, equals from the initial state shows 8.
\<close>

theorem equals_press:
  "(previousValue s = Some prev \<and> operation s = Some op
      \<and> \<not> isNaN (calculate prev (parseFloat (display s)) (Some op)) \<longrightarrow>
    handleEquals s =
      s\<lparr>display := toString (calculate prev (parseFloat (display s)) (Some op)),
        previousValue := None, operation := None, waitingForNewValue := True\<rparr>)
   \<and> (previousValue s = None \<or> operation s = None \<longrightarrow> handleEquals s = s)
   \<and> display (run initial [Digit D5, Operator Add, Digit D3, Equals]) = lit ''8''"
  by (simp add: run_5_plus_3 del: run_Cons)
    (auto simp add: handleEquals_def split: option.splits)

theorem equals_press_witness:
  "\<not> isNaN (calculate (Finite False 5) (parseFloat (lit ''3'')) (Some Add))
   \<and> handleEquals \<lparr>display = lit ''3'', previousValue = Some (Finite False 5),
         operation = Some Add, waitingForNewValue = False\<rparr> =
       \<lparr>display = lit ''8'', previousValue = None, operation = None,
         waitingForNewValue = True\<rparr>
   \<and> handleEquals initial = initial"
  using equals_press
    [of "\<lparr>display = lit ''3'', previousValue = Some (Finite False 5),
           operation = Some Add, waitingForNewValue = False\<rparr>" "Finite False 5" Add]
    equals_press [of initial]
  by (simp add: parseFloat_digit[of D3, simplified] add_5_3 toString_8 isNaN_def initial_def
      del: num_add.simps toString.simps)

lemma run_120_percent:
  "display (run initial [Digit D1, Digit D2, Digit D0, Percent]) = lit ''1.2''"
proof -
  have "display (run initial [Digit D1, Digit D2, Digit D0]) = lit ''120''"
    by (simp add: initial_def handleNumberPress_def lit_def)
  moreover have "run initial [Digit D1, Digit D2, Digit D0, Percent] =
      press (run initial [Digit D1, Digit D2, Digit D0]) Percent"
    by simp
  ultimately show ?thesis
    by (simp add: handlePercentage_def parseFloat_120 div_120_100 toString_1_2
        del: run_Cons num_div.simps toString.simps)
qed

section \<open>The text of a number\<close>

lemma unat_of_nat_small: "m < 10 \<Longrightarrow> unat (of_nat (48 + m) :: 16 word) = 48 + m"
proof -
  assume "m < 10"
  then have "48 + m < 65536"
    by simp
  moreover have "unat (of_nat k :: 16 word) = k" if "k < 65536" for k
    using that by (simp add: unat_of_nat)
  ultimately show ?thesis
    by blast
qed

lemma digit_char_is_digit: "is_digit (digit_char d)"
proof -
  have "unat (of_nat (48 + d mod 10) :: 16 word) = 48 + d mod 10"
    by (rule unat_of_nat_small) simp
  then show ?thesis
    unfolding is_digit_def digit_char_def word_le_nat_alt by simp
qed

lemma decimal_digits: "c \<in> set (decimal n) \<Longrightarrow> is_digit c"
proof (induction n rule: decimal.induct)
  case (1 n)
  then show ?case
    by (subst (asm) decimal.simps) (auto simp add: digit_char_is_digit split: if_splits)
qed

lemma decimal_not_Nil: "decimal n \<noteq> []"
  by (subst decimal.simps) simp

lemma is_digit_ascii: "is_digit c \<Longrightarrow> c < 0x80"
  by (simp add: is_digit_def word_le_nat_alt word_less_nat_alt)

lemma is_digit_not_dot: "is_digit c \<Longrightarrow> c \<noteq> dot"
  by (auto simp add: is_digit_def dot_def)

lemma is_digit_not_minus: "is_digit c \<Longrightarrow> c \<noteq> minus"
  by (auto simp add: is_digit_def minus_def)

lemma exponent_text_ascii: "c \<in> set (exponent_text e) \<Longrightarrow> c < 0x80"
  by (auto simp add: exponent_text_def minus_def plus_def split: if_splits
      dest: decimal_digits is_digit_ascii)

lemma positive_toString_ascii: "c \<in> set (positive_toString q) \<Longrightarrow> c < 0x80"
  by (auto simp add: positive_toString_def format_digits_def Let_def lit_def zero_char_def dot_def
      split: if_splits
      dest!: in_set_takeD in_set_dropD dest: decimal_digits is_digit_ascii exponent_text_ascii)

lemma toString_ascii: "c \<in> set (toString x) \<Longrightarrow> c < 0x80"
  by (cases x) (auto simp add: lit_def minus_def split: if_splits dest: positive_toString_ascii)

lemma toString_not_error_marker: "toString x \<noteq> error_marker"
proof
  assume "toString x = error_marker"
  then have "0x932F \<in> set (toString x)"
    by (simp add: error_marker_def)
  then have "(0x932F :: 16 word) < 0x80"
    by (rule toString_ascii)
  then show False by simp
qed

lemma dot_count_append: "dot_count (xs @ ys) = dot_count xs + dot_count ys"
  by (simp add: dot_count_def)

lemma dot_count_Cons: "dot_count (c # cs) = (if c = dot then 1 else 0) + dot_count cs"
  by (simp add: dot_count_def)

lemma dot_count_digits: "(\<And>c. c \<in> set xs \<Longrightarrow> is_digit c) \<Longrightarrow> dot_count xs = 0"
  by (auto simp add: dot_count_def filter_empty_conv dest: is_digit_not_dot)

lemma dot_count_decimal: "dot_count (decimal n) = 0"
  by (rule dot_count_digits) (rule decimal_digits)

lemma dot_count_take_decimal: "dot_count (take m (decimal n)) = 0"
  by (rule dot_count_digits) (auto dest: in_set_takeD decimal_digits)

lemma dot_count_drop_decimal: "dot_count (drop m (decimal n)) = 0"
  by (rule dot_count_digits) (auto dest: in_set_dropD decimal_digits)

lemma dot_count_zeros: "dot_count (replicate m zero_char) = 0"
  by (simp add: dot_count_def zero_char_def dot_def)

lemma dot_count_literals:
  "dot_count [dot] = 1" "dot_count [minus] = 0" "dot_count [plus] = 0"
  "dot_count (lit ''0.'') = 1" "dot_count (lit ''e'') = 0"
  by (simp_all add: dot_count_def lit_def dot_def minus_def plus_def)

lemma dot_count_exponent_text: "dot_count (exponent_text e) = 0"
  by (simp add: exponent_text_def dot_count_append dot_count_decimal dot_count_literals)

lemma dot_count_positive_toString: "dot_count (positive_toString q) \<le> 1"
  by (simp add: positive_toString_def format_digits_def Let_def dot_count_append
      dot_count_decimal
      dot_count_take_decimal dot_count_drop_decimal dot_count_zeros dot_count_exponent_text
      dot_count_literals dot_count_Cons)

lemma dot_count_toString: "dot_count (toString x) \<le> 1"
proof (cases x)
  case NaN
  then show ?thesis by (simp add: dot_count_def lit_def dot_def)
next
  case (Infinity s)
  then show ?thesis by (simp add: dot_count_def lit_def dot_def)
next
  case (Finite s q)
  have "dot_count (minus # positive_toString q) = dot_count (positive_toString q)"
    by (simp add: dot_count_def minus_def dot_def)
  with Finite dot_count_positive_toString[of q] show ?thesis
    by (simp add: dot_count_def lit_def dot_def)
qed

section \<open>Decimal points\<close>

lemma dot_count_no_dot: "dot \<notin> set xs \<Longrightarrow> dot_count xs = 0"
  by (auto simp add: dot_count_def filter_empty_conv)

lemma dot_count_toString_Suc: "dot_count (toString x) \<le> Suc 0"
  using dot_count_toString [of x] by simp

lemma dot_count_digit_label: "dot_count (digit_label d) = 0"
  by (cases d) (simp_all add: dot_count_def lit_def dot_def)

lemma dot_count_error_marker: "dot_count error_marker = 0"
  by (simp add: dot_count_def error_marker_def dot_def)

lemma dot_count_zero: "dot_count (lit ''0'') = 0"
  by (simp add: dot_count_def lit_def dot_def)

lemma dot_count_press:
  assumes "dot_count (display s) \<le> 1"
  shows "dot_count (display (press s e)) \<le> 1"
proof (cases e)
  case (Digit d)
  with assms show ?thesis
    by (simp add: handleNumberPress_def dot_count_append dot_count_digit_label)
next
  case Decimal
  with assms show ?thesis
    by (simp add: handleDecimalPress_def dot_count_append dot_count_literals dot_count_no_dot)
next
  case (Operator op)
  with assms show ?thesis
    by (simp add: handleOperationPress_def Let_def dot_count_toString_Suc split: option.splits)
next
  case Equals
  with assms show ?thesis
    by (simp add: handleEquals_def Let_def dot_count_toString_Suc dot_count_error_marker
        split: option.splits)
next
  case Clear
  then show ?thesis
    by (simp add: handleClear_def dot_count_zero)
next
  case ToggleSign
  with assms show ?thesis
    by (auto simp add: handleToggleSign_def dot_count_Cons minus_def dot_def split: list.splits)
next
  case Percent
  then show ?thesis
    by (simp add: handlePercentage_def Let_def dot_count_toString_Suc)
qed

lemma dot_count_run: "dot_count (display s) \<le> 1 \<Longrightarrow> dot_count (display (run s es)) \<le> 1"
proof (induction es arbitrary: s)
  case Nil
  then show ?case by simp
next
  case (Cons e es)
  from Cons.prems have "dot_count (display (press s e)) \<le> 1"
    by (rule dot_count_press)
  then have "dot_count (display (run (press s e) es)) \<le> 1"
    by (rule Cons.IH)
  then show ?case by simp
qed

text \<open>
  Claim C7. In every state reached from the initial one the display has at most one
  decimal point, and a second press of the decimal point right after a first changes
  nothing.
\<close>

theorem one_decimal_point:
  "dot_count (display (run initial es)) \<le> 1
   \<and> press (press s Decimal) Decimal = press s Decimal"
proof
  have "dot_count (display initial) \<le> 1"
    by (simp add: initial_def dot_count_zero)
  then show "dot_count (display (run initial es)) \<le> 1"
    by (rule dot_count_run)
next
  show "press (press s Decimal) Decimal = press s Decimal"
    by (simp add: handleDecimalPress_def lit_def dot_def)
qed

theorem one_decimal_point_witness:
  "dot_count (display (run initial [Digit D1, Decimal, Decimal, Digit D5, Decimal])) \<le> 1
   \<and> display (run initial [Digit D1, Decimal, Decimal, Digit D5, Decimal]) = lit ''1.5''"
  using one_decimal_point [of "[Digit D1, Decimal, Decimal, Digit D5, Decimal]" initial]
  by (simp add: initial_def handleNumberPress_def handleDecimalPress_def lit_def dot_def)

section \<open>Operator presses\<close>

lemma press_operators_snoc:
  "press_operators s (ops @ [op]) = handleOperationPress (press_operators s ops) (Some op)"
  by (simp add: press_operators_def run_append)

lemma operator_press_fields:
  "previousValue (handleOperationPress s (Some op)) \<noteq> None
   \<and> operation (handleOperationPress s (Some op)) = Some op"
  by (simp add: handleOperationPress_def Let_def split: option.splits)

lemma operator_refines: "handleOperationPress s (Some op) = spec_operator s op"
  by (simp add: handleOperationPress_def spec_operator_def calculate_spec_apply Let_def
      split: option.splits)

text \<open>
  Claim C4. An operator press is the specification's Operator event. Consequently, after
  one or more operator presses in a row a previous value and a pending operation (the
  last one pressed) are present, and one more press resolves that pending operation
  against the display as it then stands, into the display and the previous value.
\<close>

theorem operator_press:
  "handleOperationPress s (Some op) = spec_operator s op
   \<and> (ops \<noteq> [] \<longrightarrow>
        (\<exists>prev. previousValue (press_operators s ops) = Some prev
           \<and> operation (press_operators s ops) = Some (last ops)
           \<and> press_operators s (ops @ [op]) =
               (press_operators s ops)
                 \<lparr>display := toString (spec_apply prev
                     (parseFloat (display (press_operators s ops))) (last ops)),
                  previousValue := Some (spec_apply prev
                     (parseFloat (display (press_operators s ops))) (last ops)),
                  waitingForNewValue := True, operation := Some op\<rparr>))"
proof (intro conjI impI)
  show "handleOperationPress s (Some op) = spec_operator s op"
    by (rule operator_refines)
next
  assume "ops \<noteq> []"
  then obtain ops' o' where ops: "ops = ops' @ [o']"
    by (metis rev_exhaust)
  then have l: "last ops = o'"
    by simp
  define t where "t = press_operators s ops"
  have t: "t = handleOperationPress (press_operators s ops') (Some o')"
    by (simp add: t_def ops press_operators_snoc)
  obtain prev where prev: "previousValue t = Some prev"
    using operator_press_fields[of "press_operators s ops'" o'] by (auto simp add: t)
  have pending: "operation t = Some o'"
    using operator_press_fields[of "press_operators s ops'" o'] by (simp add: t)
  have "press_operators s (ops @ [op]) = spec_operator t op"
    by (simp add: press_operators_snoc t_def operator_refines)
  also have "\<dots> = t\<lparr>display := toString (spec_apply prev (parseFloat (display t)) o'),
                     previousValue := Some (spec_apply prev (parseFloat (display t)) o'),
                     waitingForNewValue := True, operation := Some op\<rparr>"
    by (simp add: spec_operator_def prev pending Let_def)
  finally show "\<exists>prev. previousValue (press_operators s ops) = Some prev
           \<and> operation (press_operators s ops) = Some (last ops)
           \<and> press_operators s (ops @ [op]) =
               (press_operators s ops)
                 \<lparr>display := toString (spec_apply prev
                     (parseFloat (display (press_operators s ops))) (last ops)),
                  previousValue := Some (spec_apply prev
                     (parseFloat (display (press_operators s ops))) (last ops)),
                  waitingForNewValue := True, operation := Some op\<rparr>"
    using prev pending by (simp add: t_def [symmetric] l)
qed

theorem operator_press_witness:
  "[Add] \<noteq> []
   \<and> press_operators \<lparr>display = lit ''2'', previousValue = None, operation = None,
         waitingForNewValue = False\<rparr> [Add, Add] =
       \<lparr>display = lit ''4'', previousValue = Some (Finite False 4), operation = Some Add,
         waitingForNewValue = True\<rparr>"
  using operator_press
    [of "\<lparr>display = lit ''2'', previousValue = None, operation = None,
           waitingForNewValue = False\<rparr>" Add "[Add]", THEN conjunct2]
  by (simp add: press_operators_def handleOperationPress_def
      parseFloat_digit[of D2, simplified] add_2_2 toString_4
      del: num_add.simps toString.simps)

section \<open>Division by zero and the error marker\<close>

lemma calculate_NaN: "calculate p NaN (Some op) = NaN"
  by (cases op; cases p) (simp_all add: num_sub_def num_0_def)

lemma is_finite_parse_digit: "is_finite (parseFloat (digit_label d))"
  by (simp add: parseFloat_digit)

lemma dropWhile_last:
  "dropWhile P (xs @ [c]) = ys \<Longrightarrow> ys \<noteq> [] \<Longrightarrow> last ys = c"
  by (metis last_appendR last_snoc takeWhile_dropWhile_id)

lemma not_marker_behind_digit:
  "dropWhile (\<lambda>c. c = minus) (xs @ digit_label d) \<noteq> error_marker"
proof
  assume a: "dropWhile (\<lambda>c. c = minus) (xs @ digit_label d) = error_marker"
  obtain c where c: "digit_label d = [c]" "is_digit c"
    using digit_label_single by blast
  have "last error_marker = c"
    using a unfolding c by (rule dropWhile_last) (simp add: error_marker_def)
  with c(2) show False
    by (simp add: error_marker_def is_digit_def)
qed

lemma not_marker_behind_dot:
  "dropWhile (\<lambda>c. c = minus) (xs @ [dot]) \<noteq> error_marker"
proof
  assume a: "dropWhile (\<lambda>c. c = minus) (xs @ [dot]) = error_marker"
  have "last error_marker = dot"
    using a by (rule dropWhile_last) (simp add: error_marker_def)
  then show False
    by (simp add: error_marker_def dot_def)
qed

lemma not_marker_in_toString:
  "dropWhile (\<lambda>c. c = minus) (toString x) \<noteq> error_marker"
proof
  assume "dropWhile (\<lambda>c. c = minus) (toString x) = error_marker"
  then have "0x932F \<in> set (dropWhile (\<lambda>c. c = minus) (toString x))"
    by (simp add: error_marker_def)
  then have "0x932F \<in> set (toString x)"
    by (rule set_dropWhileD)
  then have "(0x932F :: 16 word) < 0x80"
    by (rule toString_ascii)
  then show False by simp
qed

lemma marker_waits_press:
  assumes "marker_waits s"
  shows "marker_waits (press s e)"
proof (cases e)
  case (Digit d)
  then show ?thesis
    using not_marker_behind_digit[of "[]" d]
    by (simp add: marker_waits_def handleNumberPress_def not_marker_behind_digit)
next
  case Decimal
  have "dropWhile (\<lambda>c. c = minus) (lit ''0.'') \<noteq> error_marker"
    by (simp add: lit_def error_marker_def minus_def)
  with Decimal assms show ?thesis
    by (auto simp add: marker_waits_def handleDecimalPress_def not_marker_behind_dot
        split: if_splits)
next
  case (Operator op)
  then show ?thesis
    by (simp add: marker_waits_def handleOperationPress_def Let_def split: option.splits)
next
  case Equals
  with assms show ?thesis
    by (auto simp add: marker_waits_def handleEquals_def Let_def
        split: option.splits if_splits)
next
  case Clear
  then show ?thesis
    by (simp add: marker_waits_def handleClear_def lit_def error_marker_def minus_def)
next
  case ToggleSign
  with assms show ?thesis
    by (cases "display s")
      (auto simp add: marker_waits_def handleToggleSign_def lit_def error_marker_def minus_def
        split: if_splits)
next
  case Percent
  then show ?thesis
    by (simp add: marker_waits_def handlePercentage_def Let_def not_marker_in_toString)
qed

lemma marker_waits_run: "marker_waits s \<Longrightarrow> marker_waits (run s es)"
proof (induction es arbitrary: s)
  case Nil
  then show ?case by simp
next
  case (Cons e es)
  from Cons.prems have "marker_waits (press s e)"
    by (rule marker_waits_press)
  then have "marker_waits (run (press s e) es)"
    by (rule Cons.IH)
  then show ?case by simp
qed

lemma marker_waits_initial: "marker_waits initial"
  by (simp add: marker_waits_def initial_def lit_def error_marker_def minus_def)

lemma marker_waits_error:
  "marker_waits s \<Longrightarrow> display s = error_marker \<Longrightarrow> waitingForNewValue s"
  by (simp add: marker_waits_def error_marker_def minus_def split: if_splits)

lemma run_9_div_0:
  "run initial [Digit D9, Operator Divide, Digit D0] =
     \<lparr>display = lit ''0'', previousValue = Some (Finite False 9), operation = Some Divide,
       waitingForNewValue = False\<rparr>"
  by (simp add: initial_def handleNumberPress_def handleOperationPress_def
      parseFloat_digit[of D9, simplified])

lemma run_9_div_0_equals:
  "run initial [Digit D9, Operator Divide, Digit D0, Equals] =
     \<lparr>display = error_marker, previousValue = None, operation = None,
       waitingForNewValue = True\<rparr>"
proof -
  have "run initial [Digit D9, Operator Divide, Digit D0, Equals] =
      press (run initial [Digit D9, Operator Divide, Digit D0]) Equals"
    by simp
  then show ?thesis
    unfolding run_9_div_0
    by (simp add: handleEquals_def parseFloat_zero num_0_def isNaN_def)
qed

lemma display_marker_toggled:
  "display (run initial [Digit D9, Operator Divide, Digit D0, Equals, ToggleSign]) =
     minus # error_marker"
proof -
  have "run initial [Digit D9, Operator Divide, Digit D0, Equals, ToggleSign] =
      press (run initial [Digit D9, Operator Divide, Digit D0, Equals]) ToggleSign"
    by simp
  then show ?thesis
    unfolding run_9_div_0_equals
    by (simp add: handleToggleSign_def) (simp add: error_marker_def lit_def minus_def)
qed

text \<open>
  Claim C10, as the code has it. After a division by zero resolved by Equals the sign
  toggle puts a minus sign before the error marker, and a second sign toggle strips it:
  the display goes from a string that is not the marker to the marker by a press that is
  not Equals.
\<close>

theorem operator_division_by_zero_counterexample:
  "display (run initial [Digit D9, Operator Divide, Digit D0, Equals, ToggleSign])
      \<noteq> error_marker
   \<and> display (run initial [Digit D9, Operator Divide, Digit D0, Equals, ToggleSign, ToggleSign])
      = error_marker
   \<and> ToggleSign \<noteq> Equals"
proof -
  have "run initial [Digit D9, Operator Divide, Digit D0, Equals, ToggleSign, ToggleSign] =
      press (press (run initial [Digit D9, Operator Divide, Digit D0, Equals]) ToggleSign)
        ToggleSign"
    by simp
  then have "display (run initial
      [Digit D9, Operator Divide, Digit D0, Equals, ToggleSign, ToggleSign]) = error_marker"
    unfolding run_9_div_0_equals
    by (simp add: handleToggleSign_def) (simp add: error_marker_def lit_def minus_def)
  then show ?thesis
    by (simp only: display_marker_toggled) simp
qed

text \<open>
  Claim C10, amended. An operator press that resolves a pending division by a display
  parsing to zero shows \<open>NaN\<close> and keeps not-a-number as the previous value. No operator
  press turns a display into the error marker. A press that does is Equals, or else the
  sign toggle, and then on the marker behind a minus sign, which it strips.
\<close>

theorem operator_division_by_zero:
  "(previousValue s = Some a \<and> operation s = Some Divide
      \<and> strict_eq (parseFloat (display s)) num_0 \<longrightarrow>
    display (press s (Operator op)) = lit ''NaN''
      \<and> previousValue (press s (Operator op)) = Some NaN)
   \<and> (display s \<noteq> error_marker \<longrightarrow> display (press s (Operator op)) \<noteq> error_marker)
   \<and> (display s \<noteq> error_marker \<and> display (press s e) = error_marker \<longrightarrow>
        e = Equals \<or> (e = ToggleSign \<and> display s = minus # error_marker))"
proof (intro conjI impI)
  assume "previousValue s = Some a \<and> operation s = Some Divide
      \<and> strict_eq (parseFloat (display s)) num_0"
  then show "display (press s (Operator op)) = lit ''NaN''"
    and "previousValue (press s (Operator op)) = Some NaN"
    by (simp_all add: handleOperationPress_def)
next
  assume "display s \<noteq> error_marker"
  then show "display (press s (Operator op)) \<noteq> error_marker"
    by (simp add: handleOperationPress_def Let_def toString_not_error_marker
        split: option.splits)
next
  assume a: "display s \<noteq> error_marker \<and> display (press s e) = error_marker"
  show "e = Equals \<or> (e = ToggleSign \<and> display s = minus # error_marker)"
  proof (cases e)
    case (Digit d)
    with a show ?thesis
      using digit_label_single[of d]
      by (auto simp add: handleNumberPress_def error_marker_def is_digit_def
          split: if_splits)
  next
    case Decimal
    with a show ?thesis
      by (auto simp add: handleDecimalPress_def error_marker_def lit_def dot_def
          split: if_splits)
  next
    case (Operator op')
    with a show ?thesis
      by (auto simp add: handleOperationPress_def Let_def toString_not_error_marker
          split: option.splits if_splits)
  next
    case Equals
    then show ?thesis by simp
  next
    case Clear
    with a show ?thesis
      by (simp add: handleClear_def lit_def error_marker_def)
  next
    case ToggleSign
    with a show ?thesis
      by (cases "display s")
        (auto simp add: handleToggleSign_def error_marker_def minus_def lit_def
          split: if_splits)
  next
    case Percent
    with a show ?thesis
      by (simp add: handlePercentage_def Let_def toString_not_error_marker)
  qed
qed

theorem operator_division_by_zero_witness:
  "strict_eq (parseFloat (lit ''0'')) num_0
   \<and> press \<lparr>display = lit ''0'', previousValue = Some (Finite False 9),
         operation = Some Divide, waitingForNewValue = False\<rparr> (Operator Add) =
       \<lparr>display = lit ''NaN'', previousValue = Some NaN, operation = Some Add,
         waitingForNewValue = True\<rparr>
   \<and> lit ''0'' \<noteq> error_marker
   \<and> lit ''NaN'' \<noteq> error_marker
   \<and> display (press \<lparr>display = lit ''0'', previousValue = Some (Finite False 9),
         operation = Some Divide, waitingForNewValue = False\<rparr> Equals) = error_marker
   \<and> minus # error_marker \<noteq> error_marker
   \<and> display (press \<lparr>display = minus # error_marker, previousValue = None,
         operation = None, waitingForNewValue = True\<rparr> ToggleSign) = error_marker"
  using operator_division_by_zero
    [of "\<lparr>display = lit ''0'', previousValue = Some (Finite False 9),
           operation = Some Divide, waitingForNewValue = False\<rparr>" "Finite False 9" Add Equals]
    operator_division_by_zero
    [of "\<lparr>display = minus # error_marker, previousValue = None,
           operation = None, waitingForNewValue = True\<rparr>" "Finite False 9" Add ToggleSign]
  by (simp add: parseFloat_zero num_0_def handleOperationPress_def handleEquals_def isNaN_def
      handleToggleSign_def)
    (simp add: lit_def error_marker_def minus_def)

text \<open>
  Claim C3, as the code has it. After a division by zero resolved by Equals the display
  shows the error marker and the calculator waits for a new value, so the next digit
  press replaces the marker by the digit: Clear is not the only way back.
\<close>

theorem error_recovery_counterexample:
  "display (run initial [Digit D9, Operator Divide, Digit D0, Equals]) = error_marker
   \<and> display (run initial [Digit D9, Operator Divide, Digit D0, Equals, Digit D5]) = lit ''5''
   \<and> lit ''5'' \<noteq> error_marker
   \<and> is_finite (parseFloat (lit ''5''))"
proof -
  have "run initial [Digit D9, Operator Divide, Digit D0, Equals] =
          press (run initial [Digit D9, Operator Divide, Digit D0]) Equals"
       "run initial [Digit D9, Operator Divide, Digit D0, Equals, Digit D5] =
          press (press (run initial [Digit D9, Operator Divide, Digit D0]) Equals) (Digit D5)"
    by simp_all
  then show ?thesis
    unfolding run_9_div_0
    by (simp add: handleEquals_def handleNumberPress_def parseFloat_zero num_0_def isNaN_def
        parseFloat_digit[of D5, simplified])
      (simp add: lit_def error_marker_def)
qed

text \<open>
  Claim C3, amended. Whenever a state reached from the initial one shows the error
  marker, the calculator waits for a new value. From a state that shows the marker and
  waits for a new value, the presses that bring the display back to a string that parses
  to a finite number are exactly Clear, a digit and the decimal point: Clear gives the
  initial state, a digit press shows that digit and the decimal point shows \<open>0.\<close>.
  Equals leaves the marker on the display.
\<close>

theorem error_recovery:
  "(if display (run initial es) = error_marker then waitingForNewValue (run initial es)
    else True)
   \<and> (display s = error_marker \<and> waitingForNewValue s \<longrightarrow>
        (is_finite (parseFloat (display (press s e)))
           = (e = Clear \<or> e = Decimal \<or> (\<exists>d. e = Digit d)))
        \<and> press s Clear = initial
        \<and> display (press s (Digit k)) = digit_label k
        \<and> display (press s Decimal) = lit ''0.''
        \<and> display (press s Equals) = error_marker)"
proof (intro conjI impI)
  show "if display (run initial es) = error_marker then waitingForNewValue (run initial es)
    else True"
    using marker_waits_error[OF marker_waits_run[OF marker_waits_initial, of es]] by simp
next
  assume a: "display s = error_marker \<and> waitingForNewValue s"
  then show "display (press s Equals) = error_marker"
    by (cases "operation s")
      (simp_all add: handleEquals_def Let_def parseFloat_error_marker calculate_NaN isNaN_def
        split: option.splits)
  show "press s Clear = initial"
    by (simp add: handleClear_def initial_def)
  from a show "display (press s (Digit k)) = digit_label k"
    by (simp add: handleNumberPress_def)
  from a show "display (press s Decimal) = lit ''0.''"
    by (simp add: handleDecimalPress_def)
  show "is_finite (parseFloat (display (press s e)))
           = (e = Clear \<or> e = Decimal \<or> (\<exists>d. e = Digit d))"
  proof (cases e)
    case (Digit d)
    with a show ?thesis
      by (simp add: handleNumberPress_def is_finite_parse_digit)
  next
    case Decimal
    with a show ?thesis
      by (simp add: handleDecimalPress_def parseFloat_zero_dot)
  next
    case (Operator op)
    with a show ?thesis
      by (cases "operation s")
        (simp_all add: handleOperationPress_def parseFloat_error_marker parseFloat_NaN
          calculate_NaN split: option.splits)
  next
    case Equals
    with a show ?thesis
      by (cases "operation s")
        (simp_all add: handleEquals_def Let_def parseFloat_error_marker calculate_NaN
          isNaN_def split: option.splits)
  next
    case Clear
    then show ?thesis
      by (simp add: handleClear_def parseFloat_zero)
  next
    case ToggleSign
    have "display (handleToggleSign s) = minus # error_marker"
      using a by (simp add: handleToggleSign_def) (simp add: error_marker_def lit_def minus_def)
    with ToggleSign show ?thesis
      by (simp add: parseFloat_minus_error_marker)
  next
    case Percent
    with a show ?thesis
      by (simp add: handlePercentage_def parseFloat_error_marker parseFloat_NaN)
  qed
qed

theorem error_recovery_witness:
  "display (run initial [Digit D9, Operator Divide, Digit D0, Equals]) = error_marker
   \<and> waitingForNewValue (run initial [Digit D9, Operator Divide, Digit D0, Equals])
   \<and> \<not> is_finite (parseFloat (display
          (press (run initial [Digit D9, Operator Divide, Digit D0, Equals]) Percent)))
   \<and> press (run initial [Digit D9, Operator Divide, Digit D0, Equals]) Clear = initial
   \<and> display (press (run initial [Digit D9, Operator Divide, Digit D0, Equals]) (Digit D5))
        = lit ''5''
   \<and> display (press (run initial [Digit D9, Operator Divide, Digit D0, Equals]) Decimal)
        = lit ''0.''
   \<and> display (press (run initial [Digit D9, Operator Divide, Digit D0, Equals]) Equals)
        = error_marker"
proof -
  have d: "display (run initial [Digit D9, Operator Divide, Digit D0, Equals]) = error_marker"
    by (simp only: run_9_div_0_equals) simp
  have w: "waitingForNewValue (run initial [Digit D9, Operator Divide, Digit D0, Equals])"
    using error_recovery [of "[Digit D9, Operator Divide, Digit D0, Equals]"] d
    by (simp del: run_Cons)
  show ?thesis
    using error_recovery
      [of "[]" "run initial [Digit D9, Operator Divide, Digit D0, Equals]" Percent D5] d w
    by (simp del: run_Cons)
qed

section \<open>Powers of ten and the number of digits\<close>

lemma pow10_powi: "pow10 e = 10 powi e"
  by (simp add: pow10_def power_int_def power_inverse inverse_eq_divide power_one_over)

lemma pow10_pos: "0 < pow10 e"
  by (simp add: pow10_def)

lemma pow10_diff: "pow10 (a - b) = pow10 a / pow10 b"
  by (simp add: pow10_powi power_int_diff)

lemma pow10_nat: "pow10 (int k) = 10 ^ k"
  by (simp add: pow10_def)

lemma ndigits_pos: "0 < ndigits b n"
  by (subst ndigits.simps) simp

lemma ndigits_bounds:
  "2 \<le> b \<Longrightarrow> 1 \<le> n \<Longrightarrow> b ^ (ndigits b n - 1) \<le> n \<and> n < b ^ ndigits b n"
proof (induction b n rule: ndigits.induct)
  case (1 b n)
  show ?case
  proof (cases "n < b")
    case True
    with "1.prems" show ?thesis
      by (subst (1 2) ndigits.simps) simp
  next
    case False
    with "1.prems" have step: "ndigits b n = Suc (ndigits b (n div b))"
      by (subst ndigits.simps) simp
    have "1 \<le> n div b"
      using False "1.prems" by (simp add: Suc_le_eq div_greater_zero_iff)
    with "1.IH" False "1.prems"
    have IH: "b ^ (ndigits b (n div b) - 1) \<le> n div b" "n div b < b ^ ndigits b (n div b)"
      by simp_all
    have "b ^ (ndigits b (n div b) - 1) * b \<le> n"
      using IH(1) "1.prems" by (simp add: less_eq_div_iff_mult_less_eq)
    then have lo: "b ^ ndigits b (n div b) \<le> n"
      using ndigits_pos[of b "n div b"]
      by (cases "ndigits b (n div b)") (simp_all add: mult.commute)
    have hi: "n < b ^ ndigits b (n div b) * b"
      using IH(2) "1.prems" by (simp add: div_less_iff_less_mult)
    from lo hi show ?thesis
      by (simp add: step mult.commute)
  qed
qed

lemma floor_log_bounds:
  assumes "2 \<le> b" and "0 < q"
  shows "of_nat b powi floor_log b q \<le> q" and "q < of_nat b powi (floor_log b q + 1)"
proof -
  define B :: rat where "B = of_nat b"
  have B1: "1 < B"
    using assms(1) by (simp add: B_def)
  have cast: "of_nat (b ^ k) = B ^ k" for k
    by (simp add: B_def)
  have "B powi floor_log b q \<le> q \<and> q < B powi (floor_log b q + 1)"
  proof (cases "1 \<le> q")
    case True
    define m where "m = nat \<lfloor>q\<rfloor>"
    define d where "d = ndigits b m"
    have m1: "1 \<le> m"
      using True by (simp add: m_def le_nat_iff le_floor_iff)
    have b: "b ^ (d - 1) \<le> m" "m < b ^ d"
      using ndigits_bounds[of b m] m1 assms(1) by (simp_all add: d_def)
    have d1: "0 < d"
      by (simp add: d_def ndigits_pos)
    have mq: "of_nat m \<le> q" "q < of_nat m + 1"
      using True floor_correct[of q] by (simp_all add: m_def)
    have fl: "floor_log b q = int (d - 1)"
      using True d1 by (simp add: floor_log_def d_def m_def of_nat_diff)
    have "(of_nat (b ^ (d - 1)) :: rat) \<le> of_nat m"
      using b(1) by (simp only: of_nat_le_iff)
    then have "B ^ (d - 1) \<le> of_nat m"
      by (simp only: cast)
    then have "B ^ (d - 1) \<le> q"
      using mq(1) by (rule order_trans)
    then have lo: "B powi int (d - 1) \<le> q"
      by simp
    have "m + 1 \<le> b ^ d"
      using b(2) by simp
    then have "(of_nat (m + 1) :: rat) \<le> of_nat (b ^ d)"
      by (simp only: of_nat_le_iff)
    then have "(of_nat (m + 1) :: rat) \<le> B ^ d"
      by (simp only: cast)
    moreover have "q < of_nat (m + 1)"
      using mq(2) by simp
    ultimately have "q < B ^ d"
      by (rule less_le_trans [rotated])
    moreover have "int (d - 1) + 1 = int d"
      using d1 by simp
    ultimately have hi: "q < B powi (int (d - 1) + 1)"
      by simp
    from lo hi show ?thesis
      by (simp add: fl)
  next
    case False
    define y where "y = 1 / q"
    define m where "m = nat (\<lceil>y\<rceil> - 1)"
    define d where "d = ndigits b m"
    have y1: "1 < y"
      using False assms(2) by (simp add: y_def)
    then have c2: "2 \<le> \<lceil>y\<rceil>"
      by (simp add: le_ceiling_iff)
    then have m1: "1 \<le> m"
      unfolding m_def by linarith
    have b: "b ^ (d - 1) \<le> m" "m < b ^ d"
      using ndigits_bounds[of b m] m1 assms(1) by (simp_all add: d_def)
    have d1: "0 < d"
      by (simp add: d_def ndigits_pos)
    have im: "int m = \<lceil>y\<rceil> - 1"
      using c2 unfolding m_def by linarith
    have my: "of_nat m < y"
    proof -
      have "of_int (\<lceil>y\<rceil> - 1) < y"
        using ceiling_correct[of y] by simp
      then show ?thesis
        by (metis im of_int_of_nat_eq)
    qed
    have ym: "y \<le> of_nat m + 1"
    proof -
      have "y \<le> of_int \<lceil>y\<rceil>"
        by (rule le_of_int_ceiling)
      also have "of_int \<lceil>y\<rceil> = (of_int (int m + 1) :: rat)"
        by (simp add: im)
      finally show ?thesis by simp
    qed
    have fl: "floor_log b q = - int d"
      using False by (simp add: floor_log_def d_def m_def y_def)
    have "(of_nat (b ^ (d - 1)) :: rat) \<le> of_nat m"
      using b(1) by (simp only: of_nat_le_iff)
    then have "B ^ (d - 1) \<le> of_nat m"
      by (simp only: cast)
    then have ylo: "B ^ (d - 1) < y"
      using my by (rule le_less_trans)
    have "m + 1 \<le> b ^ d"
      using b(2) by simp
    then have "(of_nat (m + 1) :: rat) \<le> of_nat (b ^ d)"
      by (simp only: of_nat_le_iff)
    then have "(of_nat (m + 1) :: rat) \<le> B ^ d"
      by (simp only: cast)
    moreover have "y \<le> of_nat (m + 1)"
      using ym by simp
    ultimately have yhi: "y \<le> B ^ d"
      by (rule order_trans [rotated])
    have qy: "q = 1 / y"
      by (simp add: y_def)
    have ypos: "0 < y"
      using y1 by simp
    have Bpos: "0 < B ^ k" for k
      using B1 by simp
    have "1 / B ^ d \<le> q"
      unfolding qy using yhi ypos by (simp add: frac_le)
    then have lo: "B powi (- int d) \<le> q"
      by (simp add: power_int_minus_divide)
    have "q < 1 / B ^ (d - 1)"
      unfolding qy using ylo Bpos[of "d - 1"] by (simp add: frac_less2)
    moreover have "- int d + 1 = - int (d - 1)"
      using d1 by simp
    then have "B powi (- int d + 1) = 1 / B ^ (d - 1)"
      by (simp only: power_int_minus_divide power_int_of_nat)
    ultimately have hi: "q < B powi (- int d + 1)"
      by simp
    from lo hi show ?thesis
      by (simp add: fl)
  qed
  then show "of_nat b powi floor_log b q \<le> q" and "q < of_nat b powi (floor_log b q + 1)"
    by (simp_all add: B_def)
qed

lemma floor_log10_bounds:
  assumes "0 < q"
  shows "pow10 (floor_log 10 q) \<le> q" and "q < pow10 (floor_log 10 q + 1)"
  using floor_log_bounds[of 10 q] assms by (simp_all add: pow10_powi)

lemma pow2_powi: "pow2 e = 2 powi e"
  by (simp add: pow2_def power_int_def power_inverse inverse_eq_divide power_one_over)

lemma floor_log2_bounds:
  assumes "0 < q"
  shows "pow2 (floor_log 2 q) \<le> q" and "q < pow2 (floor_log 2 q + 1)"
  using floor_log_bounds[of 2 q] assms by (simp_all add: pow2_powi)

lemma pow2_pos: "0 < pow2 e"
  by (simp add: pow2_def)

lemma pow2_diff: "pow2 (a - b) = pow2 a / pow2 b"
  by (simp add: pow2_powi power_int_diff)

lemma pow2_add: "pow2 (a + b) = pow2 a * pow2 b"
  by (simp add: pow2_powi power_int_add)

lemma pow2_mono: "a \<le> b \<Longrightarrow> pow2 a \<le> pow2 b"
  unfolding pow2_powi by (rule power_int_increasing) simp_all

lemma pow2_less_cancel: "pow2 a < pow2 b \<Longrightarrow> a < b"
proof (rule ccontr)
  assume "pow2 a < pow2 b" and "\<not> a < b"
  then have "pow2 b \<le> pow2 a"
    by (simp add: pow2_mono)
  with \<open>pow2 a < pow2 b\<close> show False
    by simp
qed

text \<open>A magnitude from \<open>2 ^ 1024\<close> on rounds to infinity.\<close>

lemma round_double_overflow:
  assumes "pow2 1024 \<le> q"
  shows "round_double sg q = Infinity sg"
proof -
  have q0: "0 < q"
    using pow2_pos[of 1024] assms by (rule less_le_trans)
  define fl where "fl = floor_log 2 q"
  define e where "e = max (fl - 52) (- 1074)"
  have "pow2 1024 < pow2 (fl + 1)"
    unfolding fl_def using assms floor_log2_bounds(2)[OF q0] by (rule le_less_trans)
  then have big: "1024 \<le> fl"
    using pow2_less_cancel[of 1024 "fl + 1"] by simp
  then have e: "e = fl - 52"
    by (simp add: e_def)
  have "pow2 fl / pow2 e \<le> q / pow2 e"
    unfolding fl_def using floor_log2_bounds(1)[OF q0]
    by (rule divide_right_mono) (simp add: pow2_pos less_imp_le)
  moreover have "pow2 fl / pow2 e = pow2 (fl - e)"
    by (simp only: pow2_diff)
  moreover have "fl - e = 52"
    by (simp add: e)
  ultimately have x: "pow2 52 \<le> q / pow2 e"
    by simp
  have "of_int (2 ^ 52) \<le> q / pow2 e"
    using x by (simp add: pow2_def)
  then have "2 ^ 52 \<le> \<lfloor>q / pow2 e\<rfloor>"
    by (simp only: le_floor_iff)
  moreover have "\<lfloor>q / pow2 e\<rfloor> \<le> round_half_even (q / pow2 e)"
    by (simp add: round_half_even_def Let_def)
  ultimately have m: "2 ^ 52 \<le> round_half_even (q / pow2 e)"
    by (rule order_trans)
  have "pow2 52 * pow2 e \<le> of_int (round_half_even (q / pow2 e)) * pow2 e"
  proof (rule mult_right_mono)
    have "(of_int (2 ^ 52) :: rat) \<le> of_int (round_half_even (q / pow2 e))"
      using m by (simp only: of_int_le_iff)
    then show "pow2 52 \<le> of_int (round_half_even (q / pow2 e))"
      by (simp add: pow2_def)
    show "0 \<le> pow2 e"
      by (simp add: pow2_pos less_imp_le)
  qed
  moreover have "pow2 52 * pow2 e = pow2 fl"
    using pow2_add[of 52 e] by (simp add: e)
  moreover have "pow2 1024 \<le> pow2 fl"
    using big by (rule pow2_mono)
  ultimately have "pow2 1024 \<le> of_int (round_half_even (q / pow2 e)) * pow2 e"
    by simp
  then show ?thesis
    using q0 by (simp add: round_double_def Let_def e_def fl_def)
qed

section \<open>Exponential notation\<close>

lemma exponential_digits_range:
  assumes "0 < q"
  shows "10 ^ f \<le> fst (exponential_digits f q)"
    and "fst (exponential_digits f q) < 10 ^ Suc f"
proof -
  define e where "e = floor_log 10 q"
  define x where "x = q / pow10 (e - int f)"
  define n where "n = nat \<lfloor>x + 1 / 2\<rfloor>"
  have "pow10 e / pow10 (e - int f) \<le> x"
    unfolding x_def e_def using floor_log10_bounds(1)[OF assms]
    by (rule divide_right_mono) (simp add: pow10_pos less_imp_le)
  moreover have "pow10 e / pow10 (e - int f) = pow10 (e - (e - int f))"
    by (simp only: pow10_diff)
  ultimately have lo: "10 ^ f \<le> x"
    by (simp add: pow10_nat)
  have "x < pow10 (e + 1) / pow10 (e - int f)"
    unfolding x_def e_def using floor_log10_bounds(2)[OF assms]
    by (rule divide_strict_right_mono) (simp add: pow10_pos)
  moreover have "pow10 (e + 1) / pow10 (e - int f) = pow10 (e + 1 - (e - int f))"
    by (simp only: pow10_diff)
  moreover have "e + 1 - (e - int f) = int (Suc f)"
    by simp
  ultimately have hi: "x < 10 ^ Suc f"
    by (simp only: pow10_nat)
  have "(of_int (10 ^ f) :: rat) \<le> x + 1 / 2"
    using lo by simp
  then have "10 ^ f \<le> \<lfloor>x + 1 / 2\<rfloor>"
    by (simp only: le_floor_iff)
  then have nlo: "10 ^ f \<le> n"
    unfolding n_def by (simp add: le_nat_iff)
  have "x + 1 / 2 < of_int (10 ^ Suc f + 1)"
    using hi by simp
  then have "\<lfloor>x + 1 / 2\<rfloor> < 10 ^ Suc f + 1"
    by (simp only: floor_less_iff)
  then have nhi: "n \<le> 10 ^ Suc f"
    unfolding n_def by (simp add: nat_le_iff)
  have ed: "exponential_digits f q = (if n = 10 ^ (f + 1) then (10 ^ f, e + 1) else (n, e))"
    using assms by (simp add: exponential_digits_def Let_def n_def x_def e_def)
  show "10 ^ f \<le> fst (exponential_digits f q)"
    using nlo by (simp add: ed)
  show "fst (exponential_digits f q) < 10 ^ Suc f"
    using nhi by (simp add: ed)
qed

lemma length_decimal: "10 ^ k \<le> n \<Longrightarrow> n < 10 ^ Suc k \<Longrightarrow> length (decimal n) = Suc k"
proof (induction k arbitrary: n)
  case 0
  then show ?case by (subst decimal.simps) simp
next
  case (Suc k)
  have "10 ^ k \<le> n div 10" "n div 10 < 10 ^ Suc k"
    using Suc.prems by (simp_all add: less_eq_div_iff_mult_less_eq div_less_iff_less_mult)
  then have "length (decimal (n div 10)) = Suc k"
    by (rule Suc.IH)
  moreover have "(10::nat) \<le> 10 ^ Suc k"
    by simp
  then have "\<not> n < 10"
    using Suc.prems(1) by linarith
  ultimately show ?case
    by (subst decimal.simps) simp
qed

lemma seven_digits:
  assumes "length cs = 7" and "\<And>c. c \<in> set cs \<Longrightarrow> is_digit c"
  shows "unsigned_scientific6 (take 1 cs @ [dot] @ drop 1 cs @ lit ''e'' @ exponent_text e)"
proof -
  obtain a b c d f g h where cs: "cs = [a, b, c, d, f, g, h]"
    using assms(1) by (auto simp add: length_Suc_conv eval_nat_numeral)
  have digits: "is_digit a" "is_digit b" "is_digit c" "is_digit d" "is_digit f" "is_digit g"
    "is_digit h"
    using assms(2) by (simp_all add: cs)
  have ex: "list_all is_digit (decimal (nat \<bar>e\<bar>))"
    by (simp add: list_all_iff decimal_digits)
  show ?thesis
    using digits ex decimal_not_Nil[of "nat \<bar>e\<bar>"]
    by (simp add: unsigned_scientific6_def cs exponent_text_def lit_def nth_Cons')
qed

lemma toExponential_scientific6:
  assumes "0 < q"
  shows "scientific6 (toExponential 6 (Finite sg q))"
proof -
  define n where "n = fst (exponential_digits 6 q)"
  define e where "e = snd (exponential_digits 6 q)"
  have range: "10 ^ 6 \<le> n" "n < 10 ^ Suc 6"
    using exponential_digits_range[OF assms, of 6] by (simp_all add: n_def)
  then have len: "length (decimal n) = 7"
    using length_decimal[of 6 n] by simp
  have n0: "n \<noteq> 0"
    using range(1) by auto
  have sci: "unsigned_scientific6
      (take 1 (decimal n) @ [dot] @ drop 1 (decimal n) @ lit ''e'' @ exponent_text e)"
    using len decimal_digits by (rule seven_digits)
  have shape: "toExponential 6 (Finite sg q) =
      (if sg then [minus] else []) @
        take 1 (decimal n) @ [dot] @ drop 1 (decimal n) @ lit ''e'' @ exponent_text e"
    using assms n0 by (simp add: Let_def mantissa_text_def n_def e_def)
  obtain c cs where c: "decimal n = c # cs"
    using decimal_not_Nil[of n] by (cases "decimal n") auto
  then have "is_digit c"
    using decimal_digits[of c n] by simp
  then have cm: "c \<noteq> minus"
    by (rule is_digit_not_minus)
  show ?thesis
    unfolding shape using sci cm by (cases sg) (simp_all add: scientific6_def c)
qed

section \<open>Typing a number beyond the binary64 range\<close>

lemma typed_zeros: "typed (replicate n D0) = replicate n zero_char"
  by (induction n) (simp_all add: typed_def lit_def zero_char_def)

lemma digits_val_snoc: "digits_val (cs @ [c]) = 10 * digits_val cs + digit_val c"
  by (simp add: digits_val_def)

lemma digits_val_one_zeros: "digits_val (0x31 # replicate n zero_char) = 10 ^ n"
proof (induction n)
  case 0
  then show ?case
    by (simp add: digits_val_def digit_val_def)
next
  case (Suc n)
  have "0x31 # replicate (Suc n) zero_char = (0x31 # replicate n zero_char) @ [zero_char]"
    by (simp add: replicate_append_same)
  then have "digits_val (0x31 # replicate (Suc n) zero_char) =
      10 * digits_val (0x31 # replicate n zero_char) + digit_val zero_char"
    by (simp only: digits_val_snoc)
  with Suc show ?case
    by (simp add: digit_val_def zero_char_def)
qed

lemma parseFloat_one_zeros:
  "parseFloat (0x31 # replicate n zero_char) = round_double False (10 ^ n)"
proof -
  define cs where "cs = 0x31 # replicate n zero_char"
  have digits: "\<forall>c \<in> set cs. is_digit c"
    by (auto simp add: cs_def is_digit_def zero_char_def)
  then have ip: "takeWhile is_digit cs = cs" and r1: "dropWhile is_digit cs = []"
    by simp_all
  have inf: "take 8 cs \<noteq> lit ''Infinity''"
    by (simp add: cs_def lit_def)
  have ne: "cs \<noteq> []"
    by (simp add: cs_def)
  have "unsigned_literal False cs = round_double False (of_nat (digits_val cs))"
    using inf ne by (simp add: unsigned_literal_def Let_def ip r1 exponent_part_def pow10_def)
  moreover have "parseFloat cs = unsigned_literal False cs"
    by (simp add: parseFloat_def cs_def is_white_space_def minus_def plus_def)
  ultimately show ?thesis
    by (simp add: cs_def digits_val_one_zeros)
qed

lemma display_one_zeros:
  "display (run initial (map Digit (D1 # replicate n D0))) = 0x31 # replicate n zero_char"
proof -
  have "run initial (map Digit (D1 # replicate n D0)) =
      initial\<lparr>display := typed_over_zero (D1 # replicate n D0)\<rparr>"
    by (rule digits_over_zero) (simp_all add: initial_def)
  then show ?thesis
    by (simp add: typed_over_zero_def typed_Cons typed_zeros lit_def)
qed

lemma parseFloat_overflow:
  "parseFloat (display (run initial (map Digit (D1 # replicate 309 D0)))) = Infinity False"
proof -
  have "pow2 1024 \<le> 10 ^ 309"
    by (simp add: pow2_def)
  then have "round_double False (10 ^ 309) = Infinity False"
    by (rule round_double_overflow)
  then show ?thesis
    by (simp only: display_one_zeros parseFloat_one_zeros)
qed

section \<open>The display formatter\<close>

lemma parseFloat_1e15: "parseFloat (lit ''1000000000000000'') = Finite False 1000000000000000"
  by (simp add: parse_eval string_eval round_eval)

lemma toExponential_1e15:
  "toExponential 6 (Finite False 1000000000000000) = lit ''1.000000e+15''"
  by (simp add: exponential_digits_def mantissa_text_def exponent_text_def decimal.simps
      round_eval string_eval)

lemma scientific6_Infinity: "\<not> scientific6 (lit ''Infinity'')"
  by (simp add: scientific6_def unsigned_scientific6_def lit_def minus_def)

text \<open>
  Claim C8, as the code has it. Typing 1 and then 309 zeros gives a display that parses
  to infinity: its absolute value is at least \<open>1e15\<close>, and \<open>toExponential\<close> prints an
  infinity as \<open>Infinity\<close>, which is not scientific notation. The same holds for the
  display \<open>Infinity\<close> that an overflowing result leaves.
\<close>

theorem format_display_counterexample:
  "display (run initial (map Digit (D1 # replicate 309 D0))) \<noteq> error_marker
   \<and> \<not> isNaN (parseFloat (display (run initial (map Digit (D1 # replicate 309 D0)))))
   \<and> num_ge (Math_abs (parseFloat (display (run initial (map Digit (D1 # replicate 309 D0))))))
        num_1e15
   \<and> formatDisplay (display (run initial (map Digit (D1 # replicate 309 D0)))) = lit ''Infinity''
   \<and> formatDisplay (lit ''Infinity'') = lit ''Infinity''
   \<and> \<not> scientific6 (lit ''Infinity'')"
proof -
  define d where "d = display (run initial (map Digit (D1 # replicate 309 D0)))"
  have ne: "d \<noteq> error_marker"
    unfolding d_def by (simp only: display_one_zeros) (simp add: error_marker_def)
  have p: "parseFloat d = Infinity False"
    unfolding d_def by (rule parseFloat_overflow)
  have f: "formatDisplay d = lit ''Infinity''"
    using ne by (simp add: formatDisplay_def p isNaN_def num_1e15_def)
  have "lit ''Infinity'' \<noteq> error_marker"
    by (simp add: lit_def error_marker_def)
  then have g: "formatDisplay (lit ''Infinity'') = lit ''Infinity''"
    by (simp add: formatDisplay_def parseFloat_Infinity isNaN_def num_1e15_def)
  have "d \<noteq> error_marker \<and> \<not> isNaN (parseFloat d)
      \<and> num_ge (Math_abs (parseFloat d)) num_1e15
      \<and> formatDisplay d = lit ''Infinity''
      \<and> formatDisplay (lit ''Infinity'') = lit ''Infinity''
      \<and> \<not> scientific6 (lit ''Infinity'')"
    using ne f g by (simp add: p isNaN_def num_1e15_def scientific6_Infinity)
  then show ?thesis
    unfolding d_def .
qed

text \<open>
  Claim C8, amended. The formatter is a total function of the display string: the error
  marker is returned unchanged; a string that parses to not-a-number gives \<open>0\<close>; one
  that parses to an infinity gives \<open>Infinity\<close> or \<open>-Infinity\<close>; one that parses to a
  finite number of absolute value at least \<open>1e15\<close> gives scientific notation with six
  fractional digits; any other gives the canonical decimal text of the parsed number.
\<close>

theorem format_display:
  "formatDisplay v =
     (if v = error_marker then error_marker
      else case parseFloat v of
             NaN \<Rightarrow> lit ''0''
           | Infinity sg \<Rightarrow> if sg then lit ''-Infinity'' else lit ''Infinity''
           | Finite sg q \<Rightarrow>
               if 10 ^ 15 \<le> q then toExponential 6 (Finite sg q) else toString (Finite sg q))
   \<and> (10 ^ 15 \<le> q \<longrightarrow> scientific6 (toExponential 6 (Finite sg q)))"
proof (intro conjI impI)
  show "formatDisplay v =
     (if v = error_marker then error_marker
      else case parseFloat v of
             NaN \<Rightarrow> lit ''0''
           | Infinity sg \<Rightarrow> if sg then lit ''-Infinity'' else lit ''Infinity''
           | Finite sg q \<Rightarrow>
               if 10 ^ 15 \<le> q then toExponential 6 (Finite sg q) else toString (Finite sg q))"
    by (cases "parseFloat v")
      (simp_all add: formatDisplay_def isNaN_def num_1e15_def signed_def Let_def
        del: toString.simps toExponential.simps, simp)
next
  assume "10 ^ 15 \<le> q"
  then have "0 < q"
    by (rule less_le_trans [rotated]) simp
  then show "scientific6 (toExponential 6 (Finite sg q))"
    by (rule toExponential_scientific6)
qed

theorem format_display_witness:
  "(10::rat) ^ 15 \<le> 10 ^ 15
   \<and> formatDisplay (lit ''1000000000000000'') = lit ''1.000000e+15''
   \<and> scientific6 (lit ''1.000000e+15'')
   \<and> formatDisplay error_marker = error_marker
   \<and> formatDisplay (lit ''NaN'') = lit ''0''"
proof -
  have ne: "lit ''1000000000000000'' \<noteq> error_marker" "lit ''NaN'' \<noteq> error_marker"
    by (simp_all add: lit_def error_marker_def)
  have "formatDisplay (lit ''1000000000000000'') = lit ''1.000000e+15''"
    using format_display [of "lit ''1000000000000000''" "10 ^ 15" False, THEN conjunct1] ne
    by (simp add: parseFloat_1e15 toExponential_1e15 del: toString.simps toExponential.simps)
  moreover have "scientific6 (lit ''1.000000e+15'')"
    using format_display [of "[]" "10 ^ 15" False, THEN conjunct2]
    by (simp add: toExponential_1e15 del: toExponential.simps)
  moreover have "formatDisplay error_marker = error_marker"
    using format_display [of error_marker 0 False, THEN conjunct1] by simp
  moreover have "formatDisplay (lit ''NaN'') = lit ''0''"
    using format_display [of "lit ''NaN''" 0 False, THEN conjunct1] ne
    by (simp add: parseFloat_NaN)
  ultimately show ?thesis by simp
qed

section \<open>Well-formed numbers and their text\<close>

lemma round_half_even_nonneg: "0 \<le> x \<Longrightarrow> 0 \<le> round_half_even x"
  by (simp add: round_half_even_def Let_def)

lemma round_double_wf: "0 \<le> q \<Longrightarrow> wf_number (round_double sg q)"
  using pow2_pos by (simp add: round_double_def Let_def round_half_even_nonneg less_imp_le)

lemma unsigned_literal_wf: "wf_number (unsigned_literal sg u)"
  by (simp add: unsigned_literal_def Let_def round_double_wf pow10_pos less_imp_le)

lemma parseFloat_wf: "wf_number (parseFloat v)"
  by (simp add: parseFloat_def unsigned_literal_wf split: list.splits)

lemma num_neg_wf: "wf_number x \<Longrightarrow> wf_number (num_neg x)"
  by (cases x) simp_all

lemma num_add_wf: "wf_number x \<Longrightarrow> wf_number y \<Longrightarrow> wf_number (num_add x y)"
  by (cases x; cases y) (simp_all add: Let_def round_double_wf)

lemma num_mul_wf: "wf_number x \<Longrightarrow> wf_number y \<Longrightarrow> wf_number (num_mul x y)"
  by (cases x; cases y) (simp_all add: round_double_wf)

lemma num_div_wf: "wf_number x \<Longrightarrow> wf_number y \<Longrightarrow> wf_number (num_div x y)"
  by (cases x; cases y) (simp_all add: round_double_wf)

lemma calculate_wf: "wf_number x \<Longrightarrow> wf_number y \<Longrightarrow> wf_number (calculate x y op)"
proof (cases op)
  case None
  assume "wf_number y"
  with None show ?thesis by simp
next
  case (Some o')
  assume "wf_number x" "wf_number y"
  with Some show ?thesis
    by (cases o') (simp_all add: num_add_wf num_sub_def num_neg_wf num_mul_wf num_div_wf)
qed

lemma lower_candidate_pos:
  assumes "0 < q" and "1 \<le> k"
  shows "0 < fst (lower_candidate q (floor_log 10 q + 1) k)"
proof -
  define e where "e = floor_log 10 q"
  have "pow10 e / pow10 (e + 1 - int k) \<le> q / pow10 (e + 1 - int k)"
    unfolding e_def using floor_log10_bounds(1)[OF assms(1)]
    by (rule divide_right_mono) (simp add: pow10_pos less_imp_le)
  moreover have "pow10 e / pow10 (e + 1 - int k) = pow10 (e - (e + 1 - int k))"
    by (simp only: pow10_diff)
  moreover have "e - (e + 1 - int k) = int (k - 1)"
    using assms(2) by simp
  ultimately have "10 ^ (k - 1) \<le> q / pow10 (e + 1 - int k)"
    by (simp only: pow10_nat)
  moreover have "(1::rat) \<le> 10 ^ (k - 1)"
    by simp
  ultimately have "1 \<le> q / pow10 (e + 1 - int k)"
    by (rule order_trans [rotated])
  then have "of_int 1 \<le> q / pow10 (e + 1 - int k)"
    by simp
  then have "1 \<le> \<lfloor>q / pow10 (e + 1 - int k)\<rfloor>"
    by (simp only: le_floor_iff)
  then show ?thesis
    by (simp add: lower_candidate_def e_def)
qed

lemma upper_candidate_pos: "0 < fst (upper_candidate q n0 k)"
  by (simp add: upper_candidate_def Let_def)

lemma closest_cases: "closest q k lo hi = lo \<or> closest q k lo hi = hi"
  by (simp add: closest_def Let_def)

lemma shortest_digits_pos:
  "0 < q \<Longrightarrow> n0 = floor_log 10 q + 1 \<Longrightarrow> 1 \<le> k \<Longrightarrow> 0 < fst (shortest_digits q n0 k)"
proof (induction q n0 k rule: shortest_digits.induct)
  case (1 q n0 k)
  have lo: "0 < fst (lower_candidate q n0 k)"
    using "1.prems" lower_candidate_pos by simp
  have hi: "0 < fst (upper_candidate q n0 k)"
    by (rule upper_candidate_pos)
  have cl: "0 < fst (closest q k (lower_candidate q n0 k) (upper_candidate q n0 k))"
    using closest_cases[of q k "lower_candidate q n0 k" "upper_candidate q n0 k"] lo hi
    by auto
  show ?case
  proof (cases "17 \<le> k \<or> round_trips q k (lower_candidate q n0 k)
      \<or> round_trips q k (upper_candidate q n0 k)")
    case True
    then show ?thesis
      using lo hi cl by (subst shortest_digits.simps) auto
  next
    case False
    then have "0 < fst (shortest_digits q n0 (Suc k))"
      using "1.IH" "1.prems" by simp
    with False show ?thesis
      by (subst shortest_digits.simps) simp
  qed
qed

lemma decimal_zero_iff: "decimal n = lit ''0'' \<longleftrightarrow> n = 0"
proof
  assume a: "decimal n = lit ''0''"
  show "n = 0"
  proof (rule ccontr)
    assume "n \<noteq> 0"
    show False
    proof (cases "n < 10")
      case True
      then have "decimal n = [digit_char n]"
        by (subst decimal.simps) simp
      moreover have "digit_char n \<noteq> 0x30"
      proof
        assume "digit_char n = 0x30"
        then have "unat (digit_char n) = unat (0x30 :: 16 word)"
          by simp
        moreover have "n mod 10 = n"
          using True by simp
        then have "unat (digit_char n) = 48 + n"
          unfolding digit_char_def using True by (simp only: unat_of_nat_small)
        ultimately show False
          using \<open>n \<noteq> 0\<close> by simp
      qed
      ultimately show False
        using a by (simp add: lit_def)
    next
      case False
      then have "decimal n = decimal (n div 10) @ [digit_char (n mod 10)]"
        by (subst decimal.simps) simp
      then have "2 \<le> length (decimal n)"
        using decimal_not_Nil[of "n div 10"] by (cases "decimal (n div 10)") simp_all
      then show False
        using a by (simp add: lit_def)
    qed
  qed
next
  assume "n = 0"
  then show "decimal n = lit ''0''"
    by (simp add: decimal.simps digit_char_def lit_def)
qed

section \<open>The sign toggle\<close>

lemma format_digits_head: "\<exists>d ds. format_digits c = d # ds \<and> is_digit d"
proof -
  obtain d ds where ds: "decimal (fst c) = d # ds"
    using decimal_not_Nil[of "fst c"] by (cases "decimal (fst c)") auto
  then have d: "is_digit d"
    using decimal_digits[of d "fst c"] by simp
  have z: "is_digit 0x30"
    by (simp add: is_digit_def)
  show ?thesis
    using d z
    by (auto simp add: format_digits_def Let_def ds lit_def take_Cons' split: if_splits)
qed

lemma format_digits_not_zero:
  assumes "0 < fst c"
  shows "format_digits c \<noteq> lit ''0''"
proof
  assume a: "format_digits c = lit ''0''"
  have nz: "decimal (fst c) \<noteq> lit ''0''"
    using assms by (simp add: decimal_zero_iff)
  obtain d ds where ds: "decimal (fst c) = d # ds"
    using decimal_not_Nil[of "fst c"] by (cases "decimal (fst c)") auto
  show False
    using a nz
    by (auto simp add: format_digits_def Let_def ds lit_def exponent_text_def take_Cons'
        dot_def Cons_eq_append_conv split: if_splits)
qed

lemma positive_toString_head: "\<exists>c cs. positive_toString q = c # cs \<and> is_digit c"
  unfolding positive_toString_def by (rule format_digits_head)

lemma positive_toString_not_zero: "0 < q \<Longrightarrow> positive_toString q \<noteq> lit ''0''"
  unfolding positive_toString_def
  by (rule format_digits_not_zero) (simp add: shortest_digits_pos)

lemma toString_plain: "wf_number x \<Longrightarrow> plain_sign (toString x)"
proof (cases x)
  case NaN
  then show ?thesis
    by (simp add: plain_sign_def lit_def minus_def)
next
  case (Infinity s)
  then show ?thesis
    by (simp add: plain_sign_def lit_def minus_def)
next
  case (Finite s q)
  assume "wf_number x"
  with Finite have q: "0 \<le> q"
    by simp
  show ?thesis
  proof (cases "q = 0")
    case True
    with Finite show ?thesis
      by (simp add: plain_sign_def lit_def minus_def)
  next
    case False
    with q have "0 < q"
      by simp
    then have nz: "positive_toString q \<noteq> lit ''0''"
      by (rule positive_toString_not_zero)
    obtain c cs where c: "positive_toString q = c # cs" "is_digit c"
      using positive_toString_head by blast
    from c(2) have "c \<noteq> minus"
      by (rule is_digit_not_minus)
    with Finite False nz show ?thesis
      by (auto simp add: plain_sign_def c(1) lit_def minus_def)
  qed
qed

lemma plain_sign_error_marker: "plain_sign error_marker"
  by (simp add: plain_sign_def error_marker_def lit_def minus_def)

lemma plain_sign_digit_label: "plain_sign (digit_label d)"
  by (cases d) (simp_all add: plain_sign_def lit_def minus_def)

lemma plain_sign_append_digit: "plain_sign cs \<Longrightarrow> plain_sign (cs @ digit_label d)"
proof -
  assume a: "plain_sign cs"
  obtain c where c: "digit_label d = [c]" "is_digit c"
    using digit_label_single by blast
  from c(2) have "c \<noteq> minus"
    by (rule is_digit_not_minus)
  with a show ?thesis
    by (cases cs; cases "tl cs") (auto simp add: plain_sign_def c(1) lit_def minus_def)
qed

lemma plain_sign_append_dot: "plain_sign cs \<Longrightarrow> plain_sign (cs @ [dot])"
  by (cases cs; cases "tl cs") (auto simp add: plain_sign_def lit_def dot_def minus_def)

lemma plain_sign_toggle:
  "plain_sign cs \<Longrightarrow> cs \<noteq> lit ''0'' \<Longrightarrow>
   plain_sign (case cs of c # r \<Rightarrow> if c = minus then r else minus # cs | [] \<Rightarrow> minus # cs)"
  by (cases cs; cases "tl cs"; cases "tl (tl cs)")
    (auto simp add: plain_sign_def lit_def minus_def)

lemma well_formed_press:
  assumes "well_formed s"
  shows "well_formed (press s e)"
proof (cases e)
  case (Digit d)
  with assms show ?thesis
    by (simp add: well_formed_def handleNumberPress_def plain_sign_digit_label
        plain_sign_append_digit)
next
  case Decimal
  have "plain_sign (lit ''0.'')"
    by (simp add: plain_sign_def lit_def minus_def)
  with Decimal assms show ?thesis
    by (simp add: well_formed_def handleDecimalPress_def plain_sign_append_dot)
next
  case (Operator op)
  with assms show ?thesis
    by (auto simp add: well_formed_def handleOperationPress_def Let_def parseFloat_wf
        calculate_wf toString_plain split: option.splits)
next
  case Equals
  with assms show ?thesis
    by (auto simp add: well_formed_def handleEquals_def Let_def parseFloat_wf calculate_wf
        toString_plain plain_sign_error_marker split: option.splits)
next
  case Clear
  then show ?thesis
    by (simp add: well_formed_def handleClear_def plain_sign_def lit_def minus_def)
next
  case ToggleSign
  with assms show ?thesis
    by (cases "display s = lit ''0''")
      (simp_all add: well_formed_def handleToggleSign_def plain_sign_toggle)
next
  case Percent
  have "wf_number (num_div (parseFloat (display s)) num_100)"
    by (rule num_div_wf) (simp_all add: parseFloat_wf num_100_def)
  with Percent assms show ?thesis
    by (simp add: well_formed_def handlePercentage_def Let_def toString_plain)
qed

lemma well_formed_run: "well_formed s \<Longrightarrow> well_formed (run s es)"
proof (induction es arbitrary: s)
  case Nil
  then show ?case by simp
next
  case (Cons e es)
  from Cons.prems have "well_formed (press s e)"
    by (rule well_formed_press)
  then have "well_formed (run (press s e) es)"
    by (rule Cons.IH)
  then show ?case by simp
qed

lemma well_formed_initial: "well_formed initial"
  by (simp add: well_formed_def initial_def plain_sign_def lit_def minus_def)

lemma toggle_twice:
  "display s \<noteq> lit ''-0'' \<Longrightarrow> take 2 (display s) \<noteq> [minus, minus] \<Longrightarrow>
   handleToggleSign (handleToggleSign s) = s"
  by (cases "display s"; cases "tl (display s)")
    (auto simp add: handleToggleSign_def lit_def minus_def)

text \<open>
  Claim C9. The sign toggle leaves a state with a display of \<open>0\<close> unchanged; on any
  other display it strips a leading minus sign if there is one and prepends one if not,
  changing nothing else. Toggling twice gives the state back in every state reached from
  the initial one by any sequence of presses, and more generally in every state whose
  display is not \<open>-0\<close> and does not start with two minus signs. Pressing 7 and the toggle
  twice shows 7.
\<close>

theorem toggle_sign:
  "(display s = lit ''0'' \<longrightarrow> handleToggleSign s = s)
   \<and> (display s \<noteq> lit ''0'' \<longrightarrow>
        handleToggleSign s =
          s\<lparr>display := (if take 1 (display s) = [minus] then drop 1 (display s)
                         else minus # display s)\<rparr>)
   \<and> (display s \<noteq> lit ''-0'' \<and> take 2 (display s) \<noteq> [minus, minus] \<longrightarrow>
        handleToggleSign (handleToggleSign s) = s)
   \<and> handleToggleSign (handleToggleSign (run initial es)) = run initial es
   \<and> display (run initial [Digit D7, ToggleSign, ToggleSign]) = lit ''7''"
proof (intro conjI impI)
  assume "display s = lit ''0''"
  then show "handleToggleSign s = s"
    by (simp add: handleToggleSign_def)
next
  assume "display s \<noteq> lit ''0''"
  then show "handleToggleSign s =
          s\<lparr>display := (if take 1 (display s) = [minus] then drop 1 (display s)
                         else minus # display s)\<rparr>"
    by (cases "display s") (simp_all add: handleToggleSign_def)
next
  assume "display s \<noteq> lit ''-0'' \<and> take 2 (display s) \<noteq> [minus, minus]"
  then show "handleToggleSign (handleToggleSign s) = s"
    by (simp add: toggle_twice)
next
  have "well_formed (run initial es)"
    using well_formed_initial by (rule well_formed_run)
  then have "display (run initial es) \<noteq> lit ''-0''"
    and "take 2 (display (run initial es)) \<noteq> [minus, minus]"
    by (simp_all add: well_formed_def plain_sign_def)
  then show "handleToggleSign (handleToggleSign (run initial es)) = run initial es"
    by (rule toggle_twice)
next
  show "display (run initial [Digit D7, ToggleSign, ToggleSign]) = lit ''7''"
    by (simp add: initial_def handleNumberPress_def handleToggleSign_def lit_def minus_def)
qed

theorem toggle_sign_witness:
  "handleToggleSign initial = initial
   \<and> display (handleToggleSign \<lparr>display = lit ''-1.50'', previousValue = None,
        operation = None, waitingForNewValue = False\<rparr>) = lit ''1.50''
   \<and> display (handleToggleSign \<lparr>display = lit ''1.50'', previousValue = None,
        operation = None, waitingForNewValue = False\<rparr>) = lit ''-1.50''
   \<and> handleToggleSign (handleToggleSign \<lparr>display = lit ''-1.50'', previousValue = None,
        operation = None, waitingForNewValue = False\<rparr>) =
       \<lparr>display = lit ''-1.50'', previousValue = None, operation = None,
         waitingForNewValue = False\<rparr>
   \<and> handleToggleSign (handleToggleSign (run initial [Digit D7, ToggleSign])) =
       run initial [Digit D7, ToggleSign]"
  using toggle_sign [of initial "[Digit D7, ToggleSign]"]
    toggle_sign [of "\<lparr>display = lit ''-1.50'', previousValue = None,
        operation = None, waitingForNewValue = False\<rparr>" "[]"]
    toggle_sign [of "\<lparr>display = lit ''1.50'', previousValue = None,
        operation = None, waitingForNewValue = False\<rparr>" "[]"]
  by (simp add: initial_def lit_def minus_def)

section \<open>What the display shows\<close>

lemma round_double_number: "round_double sg q \<noteq> NaN"
  by (simp add: round_double_def Let_def)

lemma unsigned_literal_number: "unsigned_number r \<Longrightarrow> unsigned_literal sg r \<noteq> NaN"
proof (cases "take 8 r = lit ''Infinity''")
  case True
  then show ?thesis
    by (simp add: unsigned_literal_def)
next
  case False
  assume "unsigned_number r"
  with False obtain c r' where r: "r = c # r'" "is_digit c"
    by (auto simp add: unsigned_number_def split: list.splits)
  then have "takeWhile is_digit r \<noteq> []"
    by simp
  with False show ?thesis
    by (simp add: unsigned_literal_def Let_def round_double_number)
qed

lemma unsigned_number_head:
  "unsigned_number (c # r) \<Longrightarrow> \<not> is_white_space c \<and> c \<noteq> minus \<and> c \<noteq> plus"
  by (auto simp add: unsigned_number_def is_digit_def is_white_space_def minus_def plus_def
      lit_def take_Cons' word_le_nat_alt)

lemma numeric_text_parse: "numeric_text cs \<Longrightarrow> parseFloat cs \<noteq> NaN"
proof -
  assume a: "numeric_text cs"
  then obtain c r where cs: "cs = c # r"
    by (cases cs) (simp_all add: numeric_text_def)
  show ?thesis
  proof (cases "c = minus")
    case True
    with a cs have "unsigned_number r"
      by (simp add: numeric_text_def)
    then have "unsigned_literal True r \<noteq> NaN"
      by (rule unsigned_literal_number)
    moreover have "\<not> is_white_space minus"
      by (simp add: is_white_space_def minus_def)
    ultimately show ?thesis
      using True by (simp add: parseFloat_def cs)
  next
    case False
    with a cs have u: "unsigned_number (c # r)"
      by (simp add: numeric_text_def)
    then have "unsigned_literal False (c # r) \<noteq> NaN"
      by (rule unsigned_literal_number)
    with unsigned_number_head[OF u] show ?thesis
      by (simp add: parseFloat_def cs)
  qed
qed

lemma take_append_full: "take n r = xs \<Longrightarrow> length xs = n \<Longrightarrow> take n (r @ ys) = xs"
  by (cases "n \<le> length r") auto

lemma unsigned_number_append: "unsigned_number r \<Longrightarrow> unsigned_number (r @ ys)"
proof (cases "take 8 r = lit ''Infinity''")
  case True
  then have "take 8 (r @ ys) = lit ''Infinity''"
    by (rule take_append_full) (simp add: lit_def)
  then show ?thesis
    by (simp add: unsigned_number_def)
next
  case False
  assume "unsigned_number r"
  with False show ?thesis
    by (cases r) (simp_all add: unsigned_number_def)
qed

lemma numeric_text_append: "numeric_text cs \<Longrightarrow> numeric_text (cs @ ys)"
proof (cases cs)
  case Nil
  assume "numeric_text cs"
  with Nil show ?thesis
    by (simp add: numeric_text_def)
next
  case (Cons c r)
  assume "numeric_text cs"
  with Cons show ?thesis
    using unsigned_number_append[of r ys] unsigned_number_append[of "c # r" ys]
    by (simp add: numeric_text_def split: if_splits)
qed

lemma numeric_text_digit_label: "numeric_text (digit_label d)"
  by (cases d) (simp_all add: numeric_text_def unsigned_number_def lit_def is_digit_def minus_def)

lemma numeric_text_literals: "numeric_text (lit ''0'')" "numeric_text (lit ''0.'')"
  by (simp_all add: numeric_text_def unsigned_number_def lit_def is_digit_def minus_def)

lemma numeric_text_toString: "x \<noteq> NaN \<Longrightarrow> numeric_text (toString x)"
proof (cases x)
  case NaN
  assume "x \<noteq> NaN"
  with NaN show ?thesis by simp
next
  case (Infinity s)
  then show ?thesis
    by (simp add: numeric_text_def unsigned_number_def lit_def minus_def)
next
  case (Finite s q)
  obtain c cs where c: "positive_toString q = c # cs" "is_digit c"
    using positive_toString_head by blast
  from c(2) have "c \<noteq> minus"
    by (rule is_digit_not_minus)
  with Finite c show ?thesis
    by (simp add: numeric_text_def unsigned_number_def lit_def is_digit_def minus_def)
qed

lemma numeric_text_toggle:
  "numeric_text cs \<Longrightarrow>
   numeric_text (case cs of c # r \<Rightarrow> if c = minus then r else minus # cs | [] \<Rightarrow> minus # cs)"
proof (cases cs)
  case Nil
  assume "numeric_text cs"
  with Nil show ?thesis
    by (simp add: numeric_text_def)
next
  case (Cons c r)
  assume a: "numeric_text cs"
  show ?thesis
  proof (cases "c = minus")
    case True
    with a Cons have u: "unsigned_number r"
      by (simp add: numeric_text_def)
    then obtain c' r' where r: "r = c' # r'"
      by (cases r) (simp_all add: unsigned_number_def lit_def)
    with u have "c' \<noteq> minus"
      using unsigned_number_head[of c' r'] by simp
    with u r True Cons show ?thesis
      by (simp add: numeric_text_def)
  next
    case False
    with a Cons show ?thesis
      by (simp add: numeric_text_def)
  qed
qed

lemma num_div_100_number: "x \<noteq> NaN \<Longrightarrow> num_div x num_100 \<noteq> NaN"
  by (cases x) (simp_all add: num_100_def round_double_number)

lemma shows_number_press:
  assumes "shows_number s" and "\<not> irregular s e"
  shows "shows_number (press s e)"
proof (cases e)
  case (Digit d)
  with assms(1) show ?thesis
    by (auto simp add: shows_number_def handleNumberPress_def numeric_text_digit_label
        numeric_text_append)
next
  case Decimal
  with assms(1) show ?thesis
    by (auto simp add: shows_number_def handleDecimalPress_def numeric_text_literals
        numeric_text_append)
next
  case (Operator op)
  with assms show ?thesis
    by (auto simp add: shows_number_def handleOperationPress_def Let_def isNaN_def
        numeric_text_toString split: option.splits)
next
  case Equals
  with assms(1) show ?thesis
    by (auto simp add: shows_number_def handleEquals_def Let_def isNaN_def
        numeric_text_toString split: option.splits)
next
  case Clear
  then show ?thesis
    by (simp add: shows_number_def handleClear_def numeric_text_literals)
next
  case ToggleSign
  with assms(2) have "parseFloat (display s) \<noteq> NaN"
    by (simp add: isNaN_def)
  with assms(1) have "numeric_text (display s)"
    by (auto simp add: shows_number_def parseFloat_error_marker)
  with ToggleSign show ?thesis
    by (cases "display s = lit ''0''")
      (simp_all add: shows_number_def handleToggleSign_def numeric_text_toggle)
next
  case Percent
  with assms(2) have "parseFloat (display s) \<noteq> NaN"
    by (simp add: isNaN_def)
  then have "numeric_text (toString (num_div (parseFloat (display s)) num_100))"
    by (intro numeric_text_toString num_div_100_number)
  with Percent show ?thesis
    by (simp add: shows_number_def handlePercentage_def Let_def)
qed

lemma shows_number_run:
  "shows_number s \<Longrightarrow> regular_run s es \<Longrightarrow> shows_number (run s es)"
proof (induction es arbitrary: s)
  case Nil
  then show ?case by simp
next
  case (Cons e es)
  from Cons.prems have "shows_number (press s e)"
    by (simp add: shows_number_press)
  moreover from Cons.prems have "regular_run (press s e) es"
    by simp
  ultimately have "shows_number (run (press s e) es)"
    by (rule Cons.IH)
  then show ?case by simp
qed

lemma shows_number_initial: "shows_number initial"
  by (simp add: shows_number_def initial_def numeric_text_literals)

lemma regular_digits: "regular_run s (map Digit ds)"
  by (induction ds arbitrary: s) simp_all

lemma display_not_a_number:
  "display (run initial [Digit D9, Operator Divide, Digit D0, Operator Add]) = lit ''NaN''"
proof -
  have "run initial [Digit D9, Operator Divide, Digit D0, Operator Add] =
          press (run initial [Digit D9, Operator Divide, Digit D0]) (Operator Add)"
    by simp
  then show ?thesis
    unfolding run_9_div_0
    by (simp add: handleOperationPress_def parseFloat_zero num_0_def)
qed

lemma display_marker_percent:
  "display (run initial [Digit D9, Operator Divide, Digit D0, Equals, Percent]) = lit ''NaN''"
proof -
  have "run initial [Digit D9, Operator Divide, Digit D0, Equals, Percent] =
      press (run initial [Digit D9, Operator Divide, Digit D0, Equals]) Percent"
    by simp
  then show ?thesis
    unfolding run_9_div_0_equals
    by (simp add: handlePercentage_def parseFloat_error_marker)
qed

text \<open>
  Claim C1, as the code has it. Typing 1 and then 309 zeros gives a display that parses
  to infinity, not to a finite number. Pressing 9, divide, 0 and then an operator
  resolves the division by zero in \<open>handleOperationPress\<close>, which prints the not-a-number
  result as \<open>NaN\<close> (where \<open>handleEquals\<close> tests for it and shows the error marker). And on
  the error marker the sign toggle puts a minus sign before the marker and percent prints
  \<open>NaN\<close>.
\<close>

theorem display_invariant_counterexample:
  "\<not> is_finite (parseFloat (display (run initial (map Digit (D1 # replicate 309 D0)))))
   \<and> display (run initial (map Digit (D1 # replicate 309 D0))) \<noteq> error_marker
   \<and> \<not> is_finite (parseFloat
         (display (run initial [Digit D9, Operator Divide, Digit D0, Operator Add])))
   \<and> display (run initial [Digit D9, Operator Divide, Digit D0, Operator Add]) \<noteq> error_marker
   \<and> \<not> is_finite (parseFloat
         (display (run initial [Digit D9, Operator Divide, Digit D0, Equals, ToggleSign])))
   \<and> display (run initial [Digit D9, Operator Divide, Digit D0, Equals, ToggleSign])
        \<noteq> error_marker
   \<and> \<not> is_finite (parseFloat
         (display (run initial [Digit D9, Operator Divide, Digit D0, Equals, Percent])))
   \<and> display (run initial [Digit D9, Operator Divide, Digit D0, Equals, Percent])
        \<noteq> error_marker"
proof -
  have "display (run initial (map Digit (D1 # replicate 309 D0))) \<noteq> error_marker"
    by (simp only: display_one_zeros) (simp add: error_marker_def)
  moreover have "lit ''NaN'' \<noteq> error_marker"
    by (simp add: lit_def error_marker_def)
  moreover have "minus # error_marker \<noteq> error_marker"
    by simp
  ultimately show ?thesis
    by (simp only: parseFloat_overflow display_not_a_number display_marker_toggled
        display_marker_percent parseFloat_NaN parseFloat_minus_error_marker) simp
qed

text \<open>
  Claim C1, amended. In every state reached from the initial one by a regular run (no
  operator press resolving to not-a-number, no percent or sign toggle on a display that
  does not parse to a number) the display either parses to a number, finite or an
  infinity, or is the error marker.
\<close>

theorem display_invariant:
  "regular_run initial es \<longrightarrow>
     \<not> isNaN (parseFloat (display (run initial es))) \<or> display (run initial es) = error_marker"
proof
  assume "regular_run initial es"
  with shows_number_initial have "shows_number (run initial es)"
    by (rule shows_number_run)
  then show "\<not> isNaN (parseFloat (display (run initial es)))
      \<or> display (run initial es) = error_marker"
    by (auto simp add: shows_number_def isNaN_def dest: numeric_text_parse)
qed

theorem display_invariant_witness:
  "regular_run initial [Digit D9, Operator Divide, Digit D0, Equals]
   \<and> display (run initial [Digit D9, Operator Divide, Digit D0, Equals]) = error_marker
   \<and> regular_run initial (map Digit (D1 # replicate 309 D0))
   \<and> \<not> isNaN (parseFloat (display (run initial (map Digit (D1 # replicate 309 D0)))))
   \<and> display (run initial (map Digit (D1 # replicate 309 D0))) \<noteq> error_marker"
proof -
  have r: "regular_run initial [Digit D9, Operator Divide, Digit D0, Equals]"
    by (simp add: initial_def handleNumberPress_def handleOperationPress_def)
  have m: "display (run initial [Digit D9, Operator Divide, Digit D0, Equals]) = error_marker"
    by (simp only: run_9_div_0_equals) simp
  have d: "regular_run initial (map Digit (D1 # replicate 309 D0))"
    by (rule regular_digits)
  have ne: "display (run initial (map Digit (D1 # replicate 309 D0))) \<noteq> error_marker"
    by (simp only: display_one_zeros) (simp add: error_marker_def)
  have "\<not> isNaN (parseFloat (display (run initial (map Digit (D1 # replicate 309 D0)))))
      \<or> display (run initial (map Digit (D1 # replicate 309 D0))) = error_marker"
    using display_invariant [of "map Digit (D1 # replicate 309 D0)"] d by (rule mp)
  with ne have "\<not> isNaN (parseFloat (display (run initial (map Digit (D1 # replicate 309 D0)))))"
    by blast
  with r m d ne show ?thesis
    by blast
qed

end
